theory Spec2Isabelle
  imports Main "HOL-Library.Word"
begin

section \<open>Machine integers of the C sources\<close>

text \<open>
  The library \<open>lllib.c\<close> keeps its bookkeeping in C \<open>int\<close> variables and mixes them with
  \<open>size_t\<close> (the type of \<open>sizeof\<close>) and \<open>off_t\<close>. The model is for an LP64 platform:
  \<open>int\<close> has 32 bits, \<open>size_t\<close> is unsigned with 64 bits, \<open>off_t\<close> and \<open>ssize_t\<close> are
  signed with 64 bits. Values are mathematical integers; every conversion between the
  types is written out with its wrap-around. Arithmetic inside one signed type is written
  without wrap-around (overflow there is undefined in C); the theorems below carry the
  range hypotheses under which it does not happen.
\<close>

type_synonym byte = "8 word"

definition to_int :: "int \<Rightarrow> int" where
  \<comment> \<open>conversion to \<open>int\<close>: keep the low 32 bits, read as two's complement\<close>
  "to_int x = (x + 2 ^ 31) mod 2 ^ 32 - 2 ^ 31"

definition to_size_t :: "int \<Rightarrow> int" where
  \<comment> \<open>conversion to \<open>size_t\<close>: reduce modulo \<open>2 ^ 64\<close>\<close>
  "to_size_t x = x mod 2 ^ 64"

definition to_off_t :: "int \<Rightarrow> int" where
  \<comment> \<open>conversion to \<open>off_t\<close>: keep the low 64 bits, read as two's complement\<close>
  "to_off_t x = (x + 2 ^ 63) mod 2 ^ 64 - 2 ^ 63"

definition c_div :: "int \<Rightarrow> int \<Rightarrow> int" where
  \<comment> \<open>C's \<open>/\<close> on signed integers truncates towards zero\<close>
  "c_div a b = (if 0 \<le> a then a div b else - ((- a) div b))"

definition NRECS :: int where
  "NRECS = 512"

text \<open>
  \<open>LLSIZE\<close> is \<open>sizeof(struct lastlog)\<close>. The structure is declared by the system header
  \<open>lastlog.h\<close>, so its size is a parameter \<open>S\<close> of every operation below (292 with glibc:
  a 4-byte time, 32 bytes of line, 256 bytes of host).
\<close>

definition LLSIZE_glibc :: int where
  "LLSIZE_glibc = 292"


section \<open>The files and the system calls the library uses\<close>

text \<open>
  An open file: its bytes (a sparse file reads as zero in its holes, so the content is a
  function of the offset), its size, the read offset of the description, and whether
  \<open>lseek\<close> and \<open>read\<close> work on it (\<open>lseek\<close> fails on a FIFO, \<open>read\<close> fails on a
  directory).
\<close>

record ofile =
  fdata :: "int \<Rightarrow> byte"
  fsize :: int
  fpos :: int
  seekable :: bool
  readable :: bool

datatype syscall =
    SysOpen string
  | SysLseek int int
  | SysRead int int
  | SysClose int

text \<open>
  The state: the five static variables of \<open>lllib.c\<close>, then the part of the kernel the
  library talks to: the files by path, the descriptor table of the process (index = file
  descriptor) and the trace of the system calls made so far.
\<close>

record world =
  llbuf :: "int \<Rightarrow> byte"
  num_recs :: int
  cur_rec :: int
  buf_start :: int
  ll_fd :: int
  fs :: "string \<Rightarrow> ofile option"
  fdt :: "ofile option list"
  trace :: "syscall list"

definition fd_lookup :: "ofile option list \<Rightarrow> int \<Rightarrow> ofile option" where
  "fd_lookup t fd = (if 0 \<le> fd \<and> nat fd < length t then t ! nat fd else None)"

fun first_free :: "ofile option list \<Rightarrow> nat" where
  "first_free [] = 0"
| "first_free (None # t) = 0"
| "first_free (Some f # t) = Suc (first_free t)"

definition fd_install :: "ofile option list \<Rightarrow> nat \<Rightarrow> ofile \<Rightarrow> ofile option list" where
  "fd_install t n f = (if n < length t then t[n := Some f] else t @ [Some f])"

definition sys_open :: "string \<Rightarrow> world \<Rightarrow> int \<times> world" where
  \<comment> \<open>\<open>open(fname, O_RDONLY)\<close>: the lowest free descriptor, or -1\<close>
  "sys_open fname w =
     (let w1 = w\<lparr>trace := trace w @ [SysOpen fname]\<rparr> in
      case fs w fname of
        None \<Rightarrow> (-1, w1)
      | Some f \<Rightarrow>
          (let n = first_free (fdt w)
           in (int n, w1\<lparr>fdt := fd_install (fdt w) n (f\<lparr>fpos := 0\<rparr>)\<rparr>)))"

definition sys_lseek :: "int \<Rightarrow> int \<Rightarrow> world \<Rightarrow> int \<times> world" where
  \<comment> \<open>\<open>lseek(fd, offset, SEEK_SET)\<close>: -1 on a closed descriptor, on a file that cannot be
      positioned and on a negative offset\<close>
  "sys_lseek fd offset w =
     (let w1 = w\<lparr>trace := trace w @ [SysLseek fd offset]\<rparr> in
      case fd_lookup (fdt w) fd of
        None \<Rightarrow> (-1, w1)
      | Some f \<Rightarrow>
          if seekable f \<and> 0 \<le> offset
          then (offset, w1\<lparr>fdt := (fdt w)[nat fd := Some (f\<lparr>fpos := offset\<rparr>)]\<rparr>)
          else (-1, w1))"

definition sys_read :: "int \<Rightarrow> int \<Rightarrow> world \<Rightarrow> int \<times> world" where
  \<comment> \<open>\<open>read(fd, llbuf, count)\<close>: the bytes go to the start of \<open>llbuf\<close>, the rest of it stays\<close>
  "sys_read fd count w =
     (let w1 = w\<lparr>trace := trace w @ [SysRead fd count]\<rparr> in
      case fd_lookup (fdt w) fd of
        None \<Rightarrow> (-1, w1)
      | Some f \<Rightarrow>
          if readable f then
            (let k = max 0 (min count (fsize f - fpos f))
             in (k, w1\<lparr>llbuf := (\<lambda>i. if 0 \<le> i \<and> i < k then fdata f (fpos f + i) else llbuf w i),
                       fdt := (fdt w)[nat fd := Some (f\<lparr>fpos := fpos f + k\<rparr>)]\<rparr>))
          else (-1, w1))"

definition sys_close :: "int \<Rightarrow> world \<Rightarrow> int \<times> world" where
  \<comment> \<open>\<open>close(fd)\<close>: -1 (EBADF) when the descriptor is not open\<close>
  "sys_close fd w =
     (let w1 = w\<lparr>trace := trace w @ [SysClose fd]\<rparr> in
      case fd_lookup (fdt w) fd of
        None \<Rightarrow> (-1, w1)
      | Some f \<Rightarrow> (0, w1\<lparr>fdt := (fdt w)[nat fd := None]\<rparr>))"


section \<open>The record store of lllib.c\<close>

definition ll_open :: "string \<Rightarrow> world \<Rightarrow> int \<times> world" where
  "ll_open fname w =
     (let (fd, w1) = sys_open fname w;
          w2 = w1\<lparr>ll_fd := fd, num_recs := 0, cur_rec := 0, buf_start := 0\<rparr>
      in (ll_fd w2, w2))"

definition ll_reload :: "int \<Rightarrow> world \<Rightarrow> int \<times> world" where
  \<comment> \<open>\<open>amt_read / LLSIZE\<close> divides an \<open>int\<close> by a \<open>size_t\<close>: the \<open>int\<close> is converted to
      \<open>size_t\<close>, the quotient is unsigned and is converted back to \<open>int\<close> by the assignment\<close>
  "ll_reload S w =
     (let (r, w1) = sys_read (ll_fd w) (to_size_t (NRECS * S)) w;
          amt_read = to_int r;
          amt_read = (if amt_read < 0 then -1 else amt_read);
          w2 = w1\<lparr>num_recs := to_int (to_size_t amt_read div S)\<rparr>;
          w3 = w2\<lparr>cur_rec := 0\<rparr>
      in (num_recs w3, w3))"

definition ll_seek :: "int \<Rightarrow> int \<Rightarrow> world \<Rightarrow> int \<times> world" where
  "ll_seek S rec w =
     (if ll_fd w = -1 then (-1, w)
      else if rec = cur_rec w then (0, w)
      else if rec < buf_start w \<or> rec > buf_start w + num_recs w - 1 then
        (let offset = to_off_t (to_size_t (to_size_t (c_div rec NRECS * NRECS) * S));
             (r, w1) = sys_lseek (ll_fd w) offset w
         in if r = -1 then (-1, w1)
            else
              (let w2 = w1\<lparr>buf_start := c_div rec NRECS * NRECS\<rparr>;
                   (n, w3) = ll_reload S w2
               in if n \<le> 0 then (-1, w3)
                  else (0, w3\<lparr>cur_rec := rec - buf_start w3\<rparr>)))
      else (0, w\<lparr>cur_rec := rec - buf_start w\<rparr>))"

text \<open>
  \<open>ll_read\<close> returns a pointer into \<open>llbuf\<close>, or the null pointer. The pointer is its byte
  offset in \<open>llbuf\<close>; the code computes it without looking at the size of the buffer.
\<close>

datatype llptr = LL_NULL | Ptr int

definition ll_read :: "int \<Rightarrow> world \<Rightarrow> llptr \<times> world" where
  "ll_read S w =
     (if ll_fd w = -1 then (LL_NULL, w)
      else
        (let w1 = (if buf_start w = 0 \<and> num_recs w = 0 then snd (ll_reload S w) else w)
         in if cur_rec w1 = num_recs w1 then
              (let (n, w2) = ll_reload S w1
               in if n = 0 then (LL_NULL, w2)
                  else (Ptr (to_size_t (to_size_t (cur_rec w2) * S)), w2\<lparr>cur_rec := cur_rec w2 + 1\<rparr>))
            else (Ptr (to_size_t (to_size_t (cur_rec w1) * S)), w1\<lparr>cur_rec := cur_rec w1 + 1\<rparr>)))"

definition ll_close :: "world \<Rightarrow> int \<times> world" where
  "ll_close w = (if ll_fd w \<noteq> -1 then sys_close (ll_fd w) w else (0, w))"


text \<open>\<open>n\<close> calls of \<open>ll_read\<close> in a row, with the pointers they return.\<close>

fun ll_read_times :: "nat \<Rightarrow> int \<Rightarrow> world \<Rightarrow> llptr list \<times> world" where
  "ll_read_times 0 S w = ([], w)"
| "ll_read_times (Suc n) S w =
     (let (p, w1) = ll_read S w;
          (ps, w2) = ll_read_times n S w1
      in (p # ps, w2))"


section \<open>The string check of alastlog.c\<close>

text \<open>
  \<open>check_string(str, size)\<close>, with \<open>sz\<close> for the parameter \<open>size\<close>: \<open>str\<close> is \<open>None\<close> for
  the null pointer, otherwise the array it points to. The result is the array the
  returned pointer points to: the literal \<open>""\<close> (one terminator byte), or the array of
  \<open>str\<close>, written in place. An index outside the array is \<open>None\<close>.
\<close>

definition check_string :: "byte list option \<Rightarrow> int \<Rightarrow> byte list option" where
  "check_string str sz =
     (case str of
        None \<Rightarrow> Some [0]
      | Some buf \<Rightarrow>
          if sz - 1 < 0 \<or> int (length buf) \<le> sz - 1 then None
          else if buf ! nat (sz - 1) \<noteq> 0 then Some (buf[nat (sz - 1) := 0])
          else Some buf)"

definition c_str :: "byte list \<Rightarrow> byte list option" where
  \<comment> \<open>the C string that starts an array: the bytes before the first terminator\<close>
  "c_str buf = (if 0 \<in> set buf then Some (takeWhile (\<lambda>b. b \<noteq> 0) buf) else None)"


section \<open>Quantities and sample files used in the statements\<close>

definition avail :: "int \<Rightarrow> ofile \<Rightarrow> int" where
  \<comment> \<open>the number of bytes a \<open>read\<close> of one page returns on a readable file\<close>
  "avail S f = max 0 (min (NRECS * S) (fsize f - fpos f))"

definition read_error_count :: "int \<Rightarrow> int" where
  \<comment> \<open>what \<open>amt_read / LLSIZE\<close> is once \<open>amt_read\<close> is -1\<close>
  "read_error_count S = to_int (to_size_t (- 1) div S)"

definition lastlog_data :: "int \<Rightarrow> byte" where
  \<comment> \<open>a lastlog file whose record \<open>r\<close> has \<open>ll_time = r\<close> (four bytes, little endian) and
      empty line and host\<close>
  "lastlog_data off =
     (let r = off div 292; j = off mod 292
      in if j < 4 then word_of_int (r div 256 ^ nat j) else 0)"

definition lastlog_file :: "int \<Rightarrow> ofile" where
  \<comment> \<open>the regular file of the first \<open>n\<close> records of it\<close>
  "lastlog_file n =
     \<lparr>fdata = lastlog_data, fsize = n * 292, fpos = 0, seekable = True, readable = True\<rparr>"

definition lastlog_fifo :: "int \<Rightarrow> ofile" where
  \<comment> \<open>the same bytes behind a FIFO: \<open>lseek\<close> fails on it\<close>
  "lastlog_fifo n =
     \<lparr>fdata = lastlog_data, fsize = n * 292, fpos = 0, seekable = False, readable = True\<rparr>"

definition directory :: ofile where
  \<comment> \<open>a directory: \<open>open\<close> for reading succeeds, \<open>read\<close> fails\<close>
  "directory = \<lparr>fdata = (\<lambda>_. 0), fsize = 0, fpos = 0, seekable = True, readable = False\<rparr>"

definition tty :: ofile where
  "tty = \<lparr>fdata = (\<lambda>_. 0), fsize = 0, fpos = 0, seekable = False, readable = True\<rparr>"

definition ll_time_at :: "(int \<Rightarrow> byte) \<Rightarrow> int \<Rightarrow> int" where
  \<comment> \<open>the \<open>ll_time\<close> member of the record at a byte offset of a buffer\<close>
  "ll_time_at m off =
     uint (m off) + 256 * uint (m (off + 1)) + 65536 * uint (m (off + 2))
       + 16777216 * uint (m (off + 3))"

definition boot :: "ofile \<Rightarrow> world" where
  \<comment> \<open>the process at its start, with one file at the path \<open>lastlog\<close>: the statics of
      \<open>lllib.c\<close> as initialised, descriptors 0, 1 and 2 on the terminal\<close>
  "boot f =
     \<lparr>llbuf = (\<lambda>_. 0), num_recs = 0, cur_rec = 0, buf_start = 0, ll_fd = - 1,
      fs = (\<lambda>p. if p = ''lastlog'' then Some f else None),
      fdt = [Some tty, Some tty, Some tty], trace = []\<rparr>"

definition opened :: "ofile \<Rightarrow> world" where
  \<comment> \<open>the process after \<open>ll_open("lastlog")\<close>\<close>
  "opened f = snd (ll_open ''lastlog'' (boot f))"


definition drained :: "int \<Rightarrow> world \<Rightarrow> bool" where
  \<comment> \<open>the window is empty and a further \<open>read\<close> gives no record: the file offset is at or
      past the end of a readable file, or the failing read counts as no record\<close>
  "drained S w \<longleftrightarrow>
     num_recs w = 0 \<and> cur_rec w = 0 \<and>
     (case fd_lookup (fdt w) (ll_fd w) of
        None \<Rightarrow> read_error_count S = 0
      | Some f \<Rightarrow> if readable f then fsize f \<le> fpos f else read_error_count S = 0)"

text \<open>
  The two calls \<open>get_log\<close> in \<open>alastlog.c\<close> makes for one account: \<open>ll_seek(uid)\<close>, then
  \<open>ll_read()\<close> unless the seek returned -1. The \<open>uid\<close> is the value after its conversion
  to \<open>int\<close>.
\<close>

definition lookup_uid :: "int \<Rightarrow> int \<Rightarrow> world \<Rightarrow> llptr \<times> world" where
  "lookup_uid S uid w =
     (case ll_seek S uid w of
        (r, w1) \<Rightarrow> if r = - 1 then (LL_NULL, w1) else ll_read S w1)"


text \<open>
  States of the sample process that the statements below start from. The record size is
  that of glibc.
\<close>

definition after_1023 :: world where
  \<comment> \<open>1025 records; the account 1023 has been looked up\<close>
  "after_1023 = snd (lookup_uid LLSIZE_glibc 1023 (opened (lastlog_file 1025)))"

definition after_600 :: world where
  \<comment> \<open>1025 records; the account 600 has been looked up\<close>
  "after_600 = snd (lookup_uid LLSIZE_glibc 600 (opened (lastlog_file 1025)))"

definition across_pages :: world where
  \<comment> \<open>1024 records; the account 511 has been looked up, then one more \<open>ll_read\<close>\<close>
  "across_pages =
     snd (ll_read LLSIZE_glibc (snd (lookup_uid LLSIZE_glibc 511 (opened (lastlog_file 1024)))))"

definition stale_page :: world where
  \<comment> \<open>600 records; the account 5 has been looked up\<close>
  "stale_page = snd (lookup_uid LLSIZE_glibc 5 (opened (lastlog_file 600)))"

definition at_eof :: world where
  \<comment> \<open>one record; \<open>ll_read\<close> has returned it, the next \<open>ll_read\<close> has returned null\<close>
  "at_eof = snd (ll_read LLSIZE_glibc (snd (ll_read LLSIZE_glibc (opened (lastlog_file 1)))))"

definition fifo_loaded :: world where
  \<comment> \<open>three records behind a FIFO; one \<open>ll_read\<close> has loaded them\<close>
  "fifo_loaded = snd (ll_read LLSIZE_glibc (opened (lastlog_fifo 3)))"


section \<open>Conversions and the descriptor table\<close>

lemma to_int_id: "- (2 ^ 31) \<le> x \<Longrightarrow> x < 2 ^ 31 \<Longrightarrow> to_int x = x"
  by (simp add: to_int_def)

lemma to_size_t_id: "0 \<le> x \<Longrightarrow> x < 2 ^ 64 \<Longrightarrow> to_size_t x = x"
  by (simp add: to_size_t_def)

lemma to_off_t_id: "- (2 ^ 63) \<le> x \<Longrightarrow> x < 2 ^ 63 \<Longrightarrow> to_off_t x = x"
  by (simp add: to_off_t_def)

lemma c_div_nonneg: "0 \<le> a \<Longrightarrow> c_div a b = a div b"
  by (simp add: c_div_def)

lemma first_free_le: "first_free t \<le> length t"
  by (induction t rule: first_free.induct) auto

lemma fd_lookup_install:
  "fd_lookup (fd_install t (first_free t) f) (int (first_free t)) = Some f"
  using first_free_le [of t]
  by (auto simp: fd_lookup_def fd_install_def nth_append)

lemma fd_lookup_SomeD:
  "fd_lookup t fd = Some f \<Longrightarrow> 0 \<le> fd \<and> nat fd < length t \<and> t ! nat fd = Some f"
  by (auto simp: fd_lookup_def split: if_splits)

lemma fd_lookup_update:
  "fd_lookup t fd = Some f \<Longrightarrow> fd_lookup (t[nat fd := x]) fd = x"
  by (auto simp: fd_lookup_def split: if_splits)

lemma page_count:
  assumes S: "0 < S" "NRECS * S < 2 ^ 31"
  shows "to_size_t (NRECS * S) = NRECS * S"
  using S by (intro to_size_t_id) (auto simp: NRECS_def)


section \<open>What a reload does\<close>

lemma ll_reload_readable:
  assumes f: "fd_lookup (fdt w) (ll_fd w) = Some f" "readable f"
    and S: "0 < S" "NRECS * S < 2 ^ 31"
  shows "ll_reload S w =
    (avail S f div S,
     w\<lparr>llbuf := (\<lambda>i. if 0 \<le> i \<and> i < avail S f then fdata f (fpos f + i) else llbuf w i),
       num_recs := avail S f div S, cur_rec := 0,
       fdt := (fdt w)[nat (ll_fd w) := Some (f\<lparr>fpos := fpos f + avail S f\<rparr>)],
       trace := trace w @ [SysRead (ll_fd w) (NRECS * S)]\<rparr>)"
proof -
  let ?k = "avail S f"
  have k: "0 \<le> ?k" "?k \<le> NRECS * S" using S by (auto simp: avail_def NRECS_def)
  then have k31: "?k < 2 ^ 31" using S by linarith
  have q: "0 \<le> ?k div S" "?k div S \<le> ?k"
    using k S zdiv_mono2 [of ?k 1 S] by (auto simp: pos_imp_zdiv_nonneg_iff)
  have c1: "to_int ?k = ?k" using k k31 by (intro to_int_id) auto
  have c2: "to_size_t ?k = ?k" using k k31 by (intro to_size_t_id) auto
  have c3: "to_int (?k div S) = ?k div S" using q k31 by (intro to_int_id) auto
  have neg: "\<not> ?k < 0" using k by simp
  show ?thesis
    unfolding ll_reload_def sys_read_def page_count [OF S]
    using f neg by (simp add: Let_def c1 c2 c3 avail_def [symmetric])
qed

lemma ll_reload_error:
  assumes f: "fd_lookup (fdt w) (ll_fd w) = None \<or>
              (\<exists>f. fd_lookup (fdt w) (ll_fd w) = Some f \<and> \<not> readable f)"
  shows "ll_reload S w =
    (read_error_count S,
     w\<lparr>num_recs := read_error_count S, cur_rec := 0,
       trace := trace w @ [SysRead (ll_fd w) (to_size_t (NRECS * S))]\<rparr>)"
proof -
  have m: "to_int (- 1) = - 1" by (simp add: to_int_def)
  show ?thesis
    unfolding ll_reload_def sys_read_def read_error_count_def using f
    by (auto simp: Let_def m)
qed


section \<open>The sample process\<close>

lemma file_fields [simp]:
  "fdata (lastlog_file n) = lastlog_data" "fsize (lastlog_file n) = n * 292"
  "fpos (lastlog_file n) = 0" "seekable (lastlog_file n)" "readable (lastlog_file n)"
  "fdata (lastlog_fifo n) = lastlog_data" "fsize (lastlog_fifo n) = n * 292"
  "fpos (lastlog_fifo n) = 0" "\<not> seekable (lastlog_fifo n)" "readable (lastlog_fifo n)"
  "fsize directory = 0" "fpos directory = 0" "seekable directory" "\<not> readable directory"
  by (simp_all add: lastlog_file_def lastlog_fifo_def directory_def)

lemma ll_open_boot:
  "ll_open ''lastlog'' (boot f) =
     (3, \<lparr>llbuf = (\<lambda>_. 0), num_recs = 0, cur_rec = 0, buf_start = 0, ll_fd = 3,
          fs = (\<lambda>p. if p = ''lastlog'' then Some f else None),
          fdt = [Some tty, Some tty, Some tty, Some (f\<lparr>fpos := 0\<rparr>)],
          trace = [SysOpen ''lastlog'']\<rparr>)"
  by (simp add: ll_open_def sys_open_def boot_def fd_install_def)

lemma opened_eq:
  "opened f =
     \<lparr>llbuf = (\<lambda>_. 0), num_recs = 0, cur_rec = 0, buf_start = 0, ll_fd = 3,
      fs = (\<lambda>p. if p = ''lastlog'' then Some f else None),
      fdt = [Some tty, Some tty, Some tty, Some (f\<lparr>fpos := 0\<rparr>)],
      trace = [SysOpen ''lastlog'']\<rparr>"
  by (simp add: opened_def ll_open_boot)

lemma lookup3 [simp]: "fd_lookup [a, b, c, d] 3 = d"
  by (simp add: fd_lookup_def)

lemma opened_fields [simp]:
  "ll_fd (opened f) = 3" "cur_rec (opened f) = 0" "num_recs (opened f) = 0"
  "buf_start (opened f) = 0" "trace (opened f) = [SysOpen ''lastlog'']"
  "fd_lookup (fdt (opened f)) 3 = Some (f\<lparr>fpos := 0\<rparr>)" "llbuf (opened f) = (\<lambda>_. 0)"
  by (simp_all add: opened_eq)

lemma upd3 [simp]: "[a, b, c, d][nat 3 := x] = [a, b, c, x]"
  by (simp add: eval_nat_numeral)

lemma fdt_opened [simp]:
  "fdt (opened f) = [Some tty, Some tty, Some tty, Some (f\<lparr>fpos := 0\<rparr>)]"
  by (simp add: opened_eq)

lemma S_glibc: "(0::int) < 292" "NRECS * 292 < 2 ^ 31"
  by (simp_all add: NRECS_def)


section \<open>Reload: the record count\<close>

text \<open>
  C4. Claim: when the underlying read returns an error the reload reports zero records
  (\<open>num_recs\<close> becomes 0), and otherwise \<open>num_recs\<close> is the number of bytes read divided
  by the record size. The second half is \<open>ll_reload_readable\<close>. The first half fails:
  \<open>amt_read\<close> is set to -1 and divided by \<open>LLSIZE\<close>, which is a \<open>size_t\<close>, so the -1 is
  converted to \<open>2 ^ 64 - 1\<close> before the division. On a directory opened as the lastlog
  file, with the record size of glibc, \<open>read\<close> returns -1 and the reload reports
  470681347 records; the next \<open>ll_read\<close> then returns a pointer instead of the null
  pointer.
\<close>

theorem ll_reload_read_error_count:
  "fst (sys_read 3 (NRECS * LLSIZE_glibc) (opened directory)) = - 1 \<and>
   fst (ll_reload LLSIZE_glibc (opened directory)) = 470681347 \<and>
   num_recs (snd (ll_reload LLSIZE_glibc (opened directory))) = 470681347 \<and>
   fst (ll_read LLSIZE_glibc (opened directory)) = Ptr 0"
proof -
  have l: "fd_lookup (fdt (opened directory)) (ll_fd (opened directory)) = Some directory"
    by (simp add: opened_eq directory_def)
  have e: "fd_lookup (fdt (opened directory)) (ll_fd (opened directory)) = None \<or>
     (\<exists>f. fd_lookup (fdt (opened directory)) (ll_fd (opened directory)) = Some f \<and> \<not> readable f)"
    using l by simp
  have c: "read_error_count LLSIZE_glibc = 470681347"
    by (simp add: read_error_count_def to_int_def to_size_t_def LLSIZE_glibc_def)
  have r: "ll_reload LLSIZE_glibc (opened directory) =
      (470681347, (opened directory)\<lparr>num_recs := 470681347, cur_rec := 0,
         trace := trace (opened directory) @
           [SysRead (ll_fd (opened directory)) (to_size_t (NRECS * LLSIZE_glibc))]\<rparr>)"
    using ll_reload_error [OF e, of LLSIZE_glibc] by (simp add: c)
  have s: "fst (sys_read 3 (NRECS * LLSIZE_glibc) (opened directory)) = - 1"
    using l by (simp add: sys_read_def opened_eq)
  have f3: "ll_fd (opened directory) = 3" "buf_start (opened directory) = 0"
     "num_recs (opened directory) = 0" "cur_rec (opened directory) = 0"
    by (simp_all add: opened_eq)
  have rd: "fst (ll_read LLSIZE_glibc (opened directory)) = Ptr 0"
    unfolding ll_read_def by (simp add: f3 r Let_def to_size_t_def)
  show ?thesis using r s rd by simp
qed


section \<open>Close\<close>

text \<open>
  C6. Claim: close is a no-op success on a store that was never opened, and a second
  close after a successful close succeeds too. The first half holds (first conjunct). The
  second fails: \<open>ll_close\<close> leaves \<open>ll_fd\<close> as it was, so the second call closes the same
  descriptor again and returns the -1 of \<open>close\<close>.
\<close>

theorem ll_close_twice_fails:
  "ll_close (boot (lastlog_file 10)) = (0, boot (lastlog_file 10)) \<and>
   fst (ll_open ''lastlog'' (boot (lastlog_file 10))) = 3 \<and>
   fst (ll_close (opened (lastlog_file 10))) = 0 \<and>
   fst (ll_close (snd (ll_close (opened (lastlog_file 10))))) = - 1"
proof -
  have a: "ll_close (boot (lastlog_file 10)) = (0, boot (lastlog_file 10))"
    by (simp add: ll_close_def boot_def)
  have b: "fst (ll_open ''lastlog'' (boot (lastlog_file 10))) = 3"
    by (simp add: ll_open_boot)
  have c: "ll_close (opened (lastlog_file 10)) =
      (0, (opened (lastlog_file 10))\<lparr>fdt := [Some tty, Some tty, Some tty, None],
            trace := [SysOpen ''lastlog'', SysClose 3]\<rparr>)"
    by (simp add: ll_close_def sys_close_def opened_eq)
  have d: "fst (ll_close ((opened (lastlog_file 10))\<lparr>fdt := [Some tty, Some tty, Some tty, None],
            trace := [SysOpen ''lastlog'', SysClose 3]\<rparr>)) = - 1"
    by (simp add: ll_close_def sys_close_def opened_eq)
  show ?thesis using a b c d by simp
qed


section \<open>The string check\<close>

lemma takeWhile_stop: "\<not> P y \<Longrightarrow> takeWhile P (xs @ y # ys) = takeWhile P xs"
  by (induction xs) auto

text \<open>
  C9. For a text field of width \<open>n\<close>: the null pointer gives the empty string; otherwise
  the byte at \<open>n - 1\<close> is the terminator afterwards (written there unless it already was)
  and nothing else changes, so the string returned is terminated within the width: it is
  the part of the first \<open>n - 1\<close> bytes before their first terminator.
\<close>

theorem check_string_terminated:
  "check_string None n = Some [0] \<and> c_str [0] = Some [] \<and>
   (0 < n \<and> n \<le> int (length buf) \<longrightarrow>
     (\<exists>out s. check_string (Some buf) n = Some out \<and> out = buf[nat (n - 1) := 0]
        \<and> c_str out = Some s \<and> int (length s) < n
        \<and> s = takeWhile (\<lambda>b. b \<noteq> 0) (take (nat (n - 1)) buf)))"
proof -
  have a: "check_string None n = Some [0]" "c_str [0] = Some []"
    by (simp_all add: check_string_def c_str_def)
  have b: "\<exists>out s. check_string (Some buf) n = Some out \<and> out = buf[nat (n - 1) := 0]
        \<and> c_str out = Some s \<and> int (length s) < n
        \<and> s = takeWhile (\<lambda>b. b \<noteq> 0) (take (nat (n - 1)) buf)"
    if n: "0 < n" "n \<le> int (length buf)"
  proof -
    let ?i = "nat (n - 1)"
    let ?out = "buf[?i := 0]"
    have i: "?i < length buf" using n by linarith
    have same: "?out = buf" if "buf ! ?i = 0"
      using that list_update_id [of buf ?i] by simp
    have cs: "check_string (Some buf) n = Some ?out"
      using n same by (auto simp: check_string_def)
    have split: "?out = take ?i buf @ 0 # drop (Suc ?i) buf"
      using i by (simp add: upd_conv_take_nth_drop)
    have mem: "0 \<in> set ?out" by (subst split) simp
    have tw: "takeWhile (\<lambda>b. b \<noteq> 0) ?out = takeWhile (\<lambda>b. b \<noteq> 0) (take ?i buf)"
      by (subst split) (simp add: takeWhile_stop)
    have len: "length (takeWhile (\<lambda>b. b \<noteq> 0) (take ?i buf)) \<le> ?i"
      using length_takeWhile_le [of "\<lambda>b. b \<noteq> 0" "take ?i buf"] by simp
    have "int (length (takeWhile (\<lambda>b. b \<noteq> 0) (take ?i buf))) < n"
      using len n by linarith
    then show ?thesis using cs mem tw by (simp add: c_str_def)
  qed
  show ?thesis using a b by blast
qed

theorem check_string_terminated_witness:
  "(0::int) < 2 \<and> (2::int) \<le> int (length [104, 105 :: byte]) \<and>
   check_string (Some [104, 105]) 2 = Some [104, 0] \<and> c_str [104, 0 :: byte] = Some [104]"
proof -
  from check_string_terminated [of 2 "[104, 105]"]
  obtain out s where "check_string (Some [104, 105]) 2 = Some out"
    "out = [104, 105 :: byte][nat (2 - 1) := 0]"
    "c_str out = Some s" "s = takeWhile (\<lambda>b. b \<noteq> 0) (take (nat (2 - 1)) [104, 105 :: byte])"
    by auto
  then show ?thesis by simp
qed


section \<open>Seek: the offset law\<close>

lemma sys_lseek_ok:
  "fd_lookup (fdt w) fd = Some f \<Longrightarrow> seekable f \<Longrightarrow> 0 \<le> off \<Longrightarrow>
   sys_lseek fd off w =
     (off, w\<lparr>fdt := (fdt w)[nat fd := Some (f\<lparr>fpos := off\<rparr>)],
            trace := trace w @ [SysLseek fd off]\<rparr>)"
  by (simp add: sys_lseek_def)

lemma sys_lseek_fail:
  "0 \<le> off \<Longrightarrow> fst (sys_lseek fd off w) = - 1 \<Longrightarrow>
   sys_lseek fd off w = (- 1, w\<lparr>trace := trace w @ [SysLseek fd off]\<rparr>)"
  by (auto simp: sys_lseek_def Let_def split: option.splits if_splits)

lemma page_le:
  assumes "0 \<le> rec"
  shows "0 \<le> rec div NRECS * NRECS" "rec div NRECS * NRECS \<le> rec"
  using assms by (auto simp: NRECS_def pos_imp_zdiv_nonneg_iff)

lemma seek_offset:
  assumes rec: "0 \<le> rec" "rec < 2 ^ 31" and S: "0 < S" "NRECS * S < 2 ^ 31"
  shows "to_off_t (to_size_t (to_size_t (rec div NRECS * NRECS) * S)) = rec div NRECS * NRECS * S"
    and "c_div rec NRECS * NRECS = rec div NRECS * NRECS"
    and "0 \<le> rec div NRECS * NRECS * S"
proof -
  let ?p = "rec div NRECS * NRECS"
  have p: "0 \<le> ?p" "?p \<le> rec" using page_le [OF rec(1)] by auto
  have S31: "S < 2 ^ 31" using S by (simp add: NRECS_def)
  have "?p * S \<le> 2 ^ 31 * S" using p rec S by (intro mult_right_mono) auto
  also have "\<dots> < 2 ^ 31 * 2 ^ 31" using S31 by simp
  finally have b: "?p * S < 2 ^ 62" by simp
  have nn: "0 \<le> ?p * S" using p S by simp
  show c: "c_div rec NRECS * NRECS = ?p" using rec by (simp add: c_div_nonneg)
  have s1: "to_size_t ?p = ?p" using p rec by (intro to_size_t_id) auto
  have s2: "to_size_t (?p * S) = ?p * S" using nn b by (intro to_size_t_id) auto
  have s3: "to_off_t (?p * S) = ?p * S" using nn b by (intro to_off_t_id) auto
  show "to_off_t (to_size_t (to_size_t ?p * S)) = ?p * S"
    by (simp add: s1 s2 s3)
  show "0 \<le> ?p * S" by (rule nn)
qed

lemma ll_reload_frame:
  "buf_start (snd (ll_reload S w)) = buf_start w"
  "ll_fd (snd (ll_reload S w)) = ll_fd w"
  "trace (snd (ll_reload S w)) = trace w @ [SysRead (ll_fd w) (to_size_t (NRECS * S))]"
  "num_recs (snd (ll_reload S w)) = fst (ll_reload S w)"
  "cur_rec (snd (ll_reload S w)) = 0"
  by (auto simp: ll_reload_def sys_read_def Let_def split: option.splits)

lemma ll_seek_outside:
  assumes rec: "0 \<le> rec" "rec < 2 ^ 31" and S: "0 < S" "NRECS * S < 2 ^ 31"
    and path: "ll_fd w \<noteq> - 1" "rec \<noteq> cur_rec w"
      "rec < buf_start w \<or> rec > buf_start w + num_recs w - 1"
  shows "ll_seek S rec w =
    (case sys_lseek (ll_fd w) (rec div NRECS * NRECS * S) w of (r, w1) \<Rightarrow>
       if r = - 1 then (- 1, w1)
       else case ll_reload S (w1\<lparr>buf_start := rec div NRECS * NRECS\<rparr>) of (n, w3) \<Rightarrow>
         if n \<le> 0 then (- 1, w3) else (0, w3\<lparr>cur_rec := rec - buf_start w3\<rparr>))"
  using path unfolding ll_seek_def seek_offset(2) [OF rec S] seek_offset(1) [OF rec S]
  by (simp add: Let_def split: prod.splits)

text \<open>
  C5. For every non-negative identifier: when \<open>ll_seek\<close> leaves the fast path and the
  window (so that it reloads) on a file that can be positioned, it first calls \<open>lseek\<close>
  with the absolute offset \<open>(rec div NRECS) * NRECS * S\<close>, then reads one page; the
  bytes it reads are those of the file from that offset on; \<open>buf_start\<close> is
  \<open>(rec div NRECS) * NRECS\<close>; when it returns 0, \<open>cur_rec\<close> is \<open>rec - buf_start\<close>.
\<close>

theorem ll_seek_offset_law:
  assumes rec: "0 \<le> rec" "rec < 2 ^ 31" and S: "0 < S" "NRECS * S < 2 ^ 31"
    and path: "ll_fd w \<noteq> - 1" "rec \<noteq> cur_rec w"
      "rec < buf_start w \<or> rec > buf_start w + num_recs w - 1"
    and f: "fd_lookup (fdt w) (ll_fd w) = Some f" "seekable f"
  shows "\<exists>r w'. ll_seek S rec w = (r, w') \<and>
     trace w' = trace w @ [SysLseek (ll_fd w) (rec div NRECS * NRECS * S),
                           SysRead (ll_fd w) (NRECS * S)] \<and>
     buf_start w' = rec div NRECS * NRECS \<and>
     (r = 0 \<longrightarrow> cur_rec w' = rec - buf_start w') \<and>
     (readable f \<longrightarrow>
        (\<forall>i. 0 \<le> i \<and> i < avail S (f\<lparr>fpos := rec div NRECS * NRECS * S\<rparr>) \<longrightarrow>
             llbuf w' i = fdata f (rec div NRECS * NRECS * S + i)))"
proof -
  let ?p = "rec div NRECS * NRECS"
  let ?w1 = "w\<lparr>fdt := (fdt w)[nat (ll_fd w) := Some (f\<lparr>fpos := ?p * S\<rparr>)],
               trace := trace w @ [SysLseek (ll_fd w) (?p * S)]\<rparr>"
  let ?w2 = "?w1\<lparr>buf_start := ?p\<rparr>"
  have off: "0 \<le> ?p * S" by (rule seek_offset(3) [OF rec S])
  have ls: "sys_lseek (ll_fd w) (?p * S) w = (?p * S, ?w1)"
    by (rule sys_lseek_ok [OF f off])
  have ne: "?p * S \<noteq> - 1" using off by simp
  obtain n w3 where r: "ll_reload S ?w2 = (n, w3)" by (cases "ll_reload S ?w2")
  have fr: "buf_start w3 = ?p" "trace w3 = trace w @ [SysLseek (ll_fd w) (?p * S),
                           SysRead (ll_fd w) (NRECS * S)]"
    using ll_reload_frame(1,3) [of S ?w2] r by (simp_all add: page_count [OF S])
  have sk: "ll_seek S rec w = (if n \<le> 0 then (- 1, w3) else (0, w3\<lparr>cur_rec := rec - buf_start w3\<rparr>))"
    using ll_seek_outside [OF rec S path] ls ne r by simp
  have data: "llbuf w3 i = fdata f (?p * S + i)"
    if rd: "readable f" and i: "0 \<le> i" "i < avail S (f\<lparr>fpos := ?p * S\<rparr>)" for i
  proof -
    have lk: "fd_lookup (fdt ?w2) (ll_fd ?w2) = Some (f\<lparr>fpos := ?p * S\<rparr>)"
      using fd_lookup_update [OF f(1)] by simp
    have rd': "readable (f\<lparr>fpos := ?p * S\<rparr>)" using rd by simp
    show ?thesis
      using ll_reload_readable [OF lk rd' S] r i by auto
  qed
  show ?thesis
  proof (cases "n \<le> 0")
    case True
    then show ?thesis using sk fr data by auto
  next
    case False
    then show ?thesis using sk fr data by auto
  qed
qed


section \<open>Reading at the end of the file\<close>

lemma drained_trace [simp]: "drained S (w\<lparr>trace := t\<rparr>) = drained S w"
  by (simp add: drained_def)

lemma avail_nonneg: "0 \<le> avail S f"
  by (simp add: avail_def)

lemma avail_small:
  assumes S: "0 < S" "NRECS * S < 2 ^ 31" and z: "avail S f div S = 0"
  shows "fsize f \<le> fpos f + avail S f"
proof -
  have "avail S f < S" using z S avail_nonneg [of S f]
    by (auto simp: zdiv_eq_0_iff)
  moreover have "S \<le> NRECS * S" using S by (simp add: NRECS_def)
  ultimately show ?thesis unfolding avail_def by arith
qed

lemma ll_reload_zero_drained:
  assumes S: "0 < S" "NRECS * S < 2 ^ 31" and r: "ll_reload S w = (0, w1)"
  shows "drained S w1"
proof (cases "fd_lookup (fdt w) (ll_fd w) = None \<or>
              (\<exists>f. fd_lookup (fdt w) (ll_fd w) = Some f \<and> \<not> readable f)")
  case True
  from ll_reload_error [OF True, of S] r
  have "read_error_count S = 0"
    "w1 = w\<lparr>num_recs := read_error_count S, cur_rec := 0,
       trace := trace w @ [SysRead (ll_fd w) (to_size_t (NRECS * S))]\<rparr>" by auto
  with True show ?thesis by (auto simp: drained_def)
next
  case False
  then obtain f where f: "fd_lookup (fdt w) (ll_fd w) = Some f" "readable f" by auto
  from ll_reload_readable [OF f S] r
  have z: "avail S f div S = 0"
    and w1: "w1 = w\<lparr>llbuf := (\<lambda>i. if 0 \<le> i \<and> i < avail S f then fdata f (fpos f + i) else llbuf w i),
       num_recs := avail S f div S, cur_rec := 0,
       fdt := (fdt w)[nat (ll_fd w) := Some (f\<lparr>fpos := fpos f + avail S f\<rparr>)],
       trace := trace w @ [SysRead (ll_fd w) (NRECS * S)]\<rparr>" by auto
  have lk: "fd_lookup (fdt w1) (ll_fd w1) = Some (f\<lparr>fpos := fpos f + avail S f\<rparr>)"
    using fd_lookup_update [OF f(1)] by (simp add: w1)
  show ?thesis
    using avail_small [OF S z] f(2) z by (simp add: drained_def lk) (simp add: w1)
qed

lemma ll_reload_drained:
  assumes S: "0 < S" "NRECS * S < 2 ^ 31" and d: "drained S w"
  shows "ll_reload S w = (0, w\<lparr>trace := trace w @ [SysRead (ll_fd w) (NRECS * S)]\<rparr>)"
proof (cases "fd_lookup (fdt w) (ll_fd w) = None \<or>
              (\<exists>f. fd_lookup (fdt w) (ll_fd w) = Some f \<and> \<not> readable f)")
  case True
  then have "read_error_count S = 0" using d by (auto simp: drained_def)
  then show ?thesis
    using ll_reload_error [OF True, of S] d by (simp add: page_count [OF S] drained_def)
next
  case False
  then obtain f where f: "fd_lookup (fdt w) (ll_fd w) = Some f" "readable f" by auto
  have e: "fsize f \<le> fpos f" using d f by (simp add: drained_def)
  have a: "avail S f = 0" using e by (simp add: avail_def)
  have same: "(fdt w)[nat (ll_fd w) := Some f] = fdt w"
    using fd_lookup_SomeD [OF f(1)] list_update_id [of "fdt w" "nat (ll_fd w)"] by simp
  have z: "num_recs w = 0" "cur_rec w = 0" using d by (simp_all add: drained_def)
  have lb: "(\<lambda>i. if 0 \<le> i \<and> i < (0::int) then fdata f (fpos f + i) else llbuf w i) = llbuf w"
  proof (rule ext)
    fix i :: int
    have "\<not> (0 \<le> i \<and> i < 0)" by linarith
    then show "(if 0 \<le> i \<and> i < 0 then fdata f (fpos f + i) else llbuf w i) = llbuf w i"
      by (rule if_not_P)
  qed
  have id: "w\<lparr>num_recs := 0, cur_rec := 0, trace := t\<rparr> = w\<lparr>trace := t\<rparr>" for t
    using z by (cases w) simp
  show ?thesis
    using ll_reload_readable [OF f S] by (simp add: a same lb id)
qed

lemma ll_read_drained:
  assumes S: "0 < S" "NRECS * S < 2 ^ 31" and d: "drained S w" and fd: "ll_fd w \<noteq> - 1"
  shows "ll_read S w =
    (LL_NULL, w\<lparr>trace := trace w @
        replicate (if buf_start w = 0 then 2 else 1) (SysRead (ll_fd w) (NRECS * S))\<rparr>)"
proof -
  let ?R = "SysRead (ll_fd w) (NRECS * S)"
  have z: "num_recs w = 0" "cur_rec w = 0" using d by (simp_all add: drained_def)
  have r1: "ll_reload S w = (0, w\<lparr>trace := trace w @ [?R]\<rparr>)"
    by (rule ll_reload_drained [OF S d])
  have d2: "drained S (w\<lparr>trace := trace w @ [?R]\<rparr>)" using d by simp
  have r2: "ll_reload S (w\<lparr>trace := trace w @ [?R]\<rparr>) = (0, w\<lparr>trace := trace w @ [?R, ?R]\<rparr>)"
    using ll_reload_drained [OF S d2] by simp
  show ?thesis
  proof (cases "buf_start w = 0")
    case True
    then show ?thesis unfolding ll_read_def using fd z r1 r2
      by (simp add: Let_def numeral_2_eq_2)
  next
    case False
    then show ?thesis unfolding ll_read_def using fd z r1
      by (simp add: Let_def)
  qed
qed

lemma ll_read_null_drained:
  assumes S: "0 < S" "NRECS * S < 2 ^ 31" and r: "ll_read S w = (LL_NULL, w1)"
    and fd: "ll_fd w \<noteq> - 1"
  shows "drained S w1 \<and> ll_fd w1 = ll_fd w"
proof -
  let ?w' = "if buf_start w = 0 \<and> num_recs w = 0 then snd (ll_reload S w) else w"
  have fdw: "ll_fd ?w' = ll_fd w" by (simp add: ll_reload_frame)
  obtain n w2 where rl: "ll_reload S ?w' = (n, w2)" by (cases "ll_reload S ?w'")
  have "cur_rec ?w' = num_recs ?w' \<and> n = 0 \<and> w1 = w2"
    using r fd rl unfolding ll_read_def
    by (auto simp: Let_def split: if_splits)
  then have rl0: "ll_reload S ?w' = (0, w1)" using rl by simp
  have "ll_fd w1 = ll_fd ?w'" using ll_reload_frame(2) [of S ?w'] rl0 by simp
  then show ?thesis using ll_reload_zero_drained [OF S rl0] fdw by simp
qed

lemma ll_read_times_drained:
  assumes S: "0 < S" "NRECS * S < 2 ^ 31"
  shows "drained S w \<Longrightarrow> ll_fd w \<noteq> - 1 \<Longrightarrow> ll_read_times n S w =
    (replicate n LL_NULL, w\<lparr>trace := trace w @
        replicate (n * (if buf_start w = 0 then 2 else 1)) (SysRead (ll_fd w) (NRECS * S))\<rparr>)"
proof (induction n arbitrary: w)
  case 0
  then show ?case by simp
next
  case (Suc n)
  let ?c = "if buf_start w = 0 then 2 else 1 :: nat"
  let ?R = "SysRead (ll_fd w) (NRECS * S)"
  let ?w' = "w\<lparr>trace := trace w @ replicate ?c ?R\<rparr>"
  have r: "ll_read S w = (LL_NULL, ?w')"
    using ll_read_drained [OF S Suc.prems] by simp
  have d': "drained S ?w'" "ll_fd ?w' \<noteq> - 1" using Suc.prems by simp_all
  have ih: "ll_read_times n S ?w' =
      (replicate n LL_NULL, w\<lparr>trace := trace w @ replicate ?c ?R @ replicate (n * ?c) ?R\<rparr>)"
    using Suc.IH [OF d'] by simp
  have "replicate ?c ?R @ replicate (n * ?c) ?R = replicate (Suc n * ?c) ?R"
    by (simp add: replicate_add [symmetric])
  then show ?case using r ih by simp
qed

lemma ll_read_times_unopened:
  "ll_fd w = - 1 \<Longrightarrow> ll_read_times n S w = (replicate n LL_NULL, w)"
  by (induction n) (simp_all add: ll_read_def)

text \<open>
  C7, as amended. After an \<open>ll_read\<close> that returned the null pointer, every further
  \<open>ll_read\<close> returns the null pointer and leaves the window, the buffer and the file
  offset as they are. Each of these calls still issues \<open>read\<close> calls on an open store:
  two when \<open>buf_start\<close> is 0 (the first-call test fires again), one otherwise.
\<close>

theorem ll_read_after_end_of_file:
  assumes S: "0 < S" "NRECS * S < 2 ^ 31" and r: "ll_read S w = (LL_NULL, w1)"
  shows "ll_read_times n S w1 =
    (replicate n LL_NULL,
     w1\<lparr>trace := trace w1 @
        replicate (if ll_fd w1 = - 1 then 0 else n * (if buf_start w1 = 0 then 2 else 1))
          (SysRead (ll_fd w1) (NRECS * S))\<rparr>)"
proof (cases "ll_fd w = - 1")
  case True
  then have "w1 = w" using r by (simp add: ll_read_def)
  then show ?thesis using True ll_read_times_unopened [of w n S] by simp
next
  case False
  from ll_read_null_drained [OF S r False]
  have d: "drained S w1" and fd: "ll_fd w1 \<noteq> - 1" using False by simp_all
  show ?thesis using ll_read_times_drained [OF S d fd, of n] fd by simp
qed

section \<open>The operations, path by path\<close>

lemma ll_seek_reload:
  assumes rec: "0 \<le> rec" "rec < 2 ^ 31" and S: "0 < S" "NRECS * S < 2 ^ 31"
    and path: "ll_fd w \<noteq> - 1" "rec \<noteq> cur_rec w"
      "rec < buf_start w \<or> rec > buf_start w + num_recs w - 1"
    and f: "fd_lookup (fdt w) (ll_fd w) = Some f" "seekable f" "readable f"
    and p: "p = rec div NRECS * NRECS" and k: "k = avail S (f\<lparr>fpos := p * S\<rparr>)"
  shows "ll_seek S rec w =
    (if k div S \<le> 0 then - 1 else 0,
     w\<lparr>llbuf := (\<lambda>i. if 0 \<le> i \<and> i < k then fdata f (p * S + i) else llbuf w i),
       num_recs := k div S, cur_rec := (if k div S \<le> 0 then 0 else rec - p), buf_start := p,
       fdt := (fdt w)[nat (ll_fd w) := Some (f\<lparr>fpos := p * S + k\<rparr>)],
       trace := trace w @ [SysLseek (ll_fd w) (p * S), SysRead (ll_fd w) (NRECS * S)]\<rparr>)"
proof -
  let ?w1 = "w\<lparr>fdt := (fdt w)[nat (ll_fd w) := Some (f\<lparr>fpos := p * S\<rparr>)],
               trace := trace w @ [SysLseek (ll_fd w) (p * S)]\<rparr>"
  let ?w2 = "?w1\<lparr>buf_start := p\<rparr>"
  have off: "0 \<le> p * S" unfolding p by (rule seek_offset(3) [OF rec S])
  have ls: "sys_lseek (ll_fd w) (p * S) w = (p * S, ?w1)"
    by (rule sys_lseek_ok [OF f(1,2) off])
  have ne: "p * S \<noteq> - 1" using off by simp
  have lk: "fd_lookup (fdt ?w2) (ll_fd ?w2) = Some (f\<lparr>fpos := p * S\<rparr>)"
    using fd_lookup_update [OF f(1)] by simp
  have rd': "readable (f\<lparr>fpos := p * S\<rparr>)" using f(3) by simp
  have rl: "ll_reload S ?w2 =
    (k div S,
     ?w2\<lparr>llbuf := (\<lambda>i. if 0 \<le> i \<and> i < k then fdata f (p * S + i) else llbuf w i),
       num_recs := k div S, cur_rec := 0,
       fdt := (fdt ?w2)[nat (ll_fd w) := Some (f\<lparr>fpos := p * S + k\<rparr>)],
       trace := trace ?w2 @ [SysRead (ll_fd w) (NRECS * S)]\<rparr>)"
    using ll_reload_readable [OF lk rd' S] by (simp add: k cong: if_cong)
  show ?thesis
    using ll_seek_outside [OF rec S path] ls ne rl unfolding p
    by (cases "k div S \<le> 0") simp_all
qed

lemma ll_seek_window:
  assumes "ll_fd w \<noteq> - 1" "rec \<noteq> cur_rec w" "buf_start w \<le> rec"
    "rec \<le> buf_start w + num_recs w - 1"
  shows "ll_seek S rec w = (0, w\<lparr>cur_rec := rec - buf_start w\<rparr>)"
  using assms by (simp add: ll_seek_def)

lemma ll_seek_fast:
  assumes "ll_fd w \<noteq> - 1" "rec = cur_rec w"
  shows "ll_seek S rec w = (0, w)"
  using assms by (simp add: ll_seek_def)

lemma ll_read_window:
  assumes "ll_fd w \<noteq> - 1" "buf_start w \<noteq> 0 \<or> num_recs w \<noteq> 0" "cur_rec w \<noteq> num_recs w"
    "0 \<le> cur_rec w" "cur_rec w \<le> NRECS" "0 < S" "NRECS * S < 2 ^ 31"
  shows "ll_read S w = (Ptr (cur_rec w * S), w\<lparr>cur_rec := cur_rec w + 1\<rparr>)"
proof -
  have a: "to_size_t (cur_rec w) = cur_rec w"
    using assms by (intro to_size_t_id) (auto simp: NRECS_def)
  have le: "cur_rec w * S \<le> NRECS * S" using assms by (intro mult_right_mono) auto
  have lt: "cur_rec w * S < 2 ^ 64" using le assms(7) by simp
  have ge: "0 \<le> cur_rec w * S" using assms by simp
  have b: "to_size_t (cur_rec w * S) = cur_rec w * S"
    by (rule to_size_t_id [OF ge lt])
  show ?thesis using assms(1-3) by (auto simp: ll_read_def a b)
qed

lemma ll_read_reload:
  assumes fd: "ll_fd w \<noteq> - 1" and nf: "buf_start w \<noteq> 0 \<or> num_recs w \<noteq> 0"
    and ex: "cur_rec w = num_recs w"
    and f: "fd_lookup (fdt w) (ll_fd w) = Some f" "readable f"
    and S: "0 < S" "NRECS * S < 2 ^ 31" and k: "k = avail S f"
  shows "ll_read S w =
    (if k div S = 0 then LL_NULL else Ptr 0,
     w\<lparr>llbuf := (\<lambda>i. if 0 \<le> i \<and> i < k then fdata f (fpos f + i) else llbuf w i),
       num_recs := k div S, cur_rec := (if k div S = 0 then 0 else 1),
       fdt := (fdt w)[nat (ll_fd w) := Some (f\<lparr>fpos := fpos f + k\<rparr>)],
       trace := trace w @ [SysRead (ll_fd w) (NRECS * S)]\<rparr>)"
proof -
  have z: "to_size_t (to_size_t 0 * S) = 0" by (simp add: to_size_t_def)
  show ?thesis
    unfolding ll_read_def using fd nf ex ll_reload_readable [OF f S]
    by (auto simp: Let_def k z)
qed

lemma ll_read_first:
  assumes fd: "ll_fd w \<noteq> - 1" and nf: "buf_start w = 0" "num_recs w = 0"
    and f: "fd_lookup (fdt w) (ll_fd w) = Some f" "readable f"
    and S: "0 < S" "NRECS * S < 2 ^ 31" and k: "k = avail S f" "0 < k div S"
  shows "ll_read S w =
    (Ptr 0,
     w\<lparr>llbuf := (\<lambda>i. if 0 \<le> i \<and> i < k then fdata f (fpos f + i) else llbuf w i),
       num_recs := k div S, cur_rec := 1,
       fdt := (fdt w)[nat (ll_fd w) := Some (f\<lparr>fpos := fpos f + k\<rparr>)],
       trace := trace w @ [SysRead (ll_fd w) (NRECS * S)]\<rparr>)"
proof -
  have z: "to_size_t (to_size_t 0 * S) = 0" by (simp add: to_size_t_def)
  show ?thesis
    unfolding ll_read_def using fd nf k(2) ll_reload_readable [OF f S]
    by (auto simp: Let_def k(1) z)
qed


lemma ll_seek_lseek_fails:
  assumes rec: "0 \<le> rec" "rec < 2 ^ 31" and S: "0 < S" "NRECS * S < 2 ^ 31"
    and path: "ll_fd w \<noteq> - 1" "rec \<noteq> cur_rec w"
      "rec < buf_start w \<or> rec > buf_start w + num_recs w - 1"
    and fail: "fst (sys_lseek (ll_fd w) (rec div NRECS * NRECS * S) w) = - 1"
  shows "ll_seek S rec w =
    (- 1, w\<lparr>trace := trace w @ [SysLseek (ll_fd w) (rec div NRECS * NRECS * S)]\<rparr>)"
  using ll_seek_outside [OF rec S path]
    sys_lseek_fail [OF seek_offset(3) [OF rec S] fail]
  by simp

text \<open>The offset law at the account 600 of a file of 1025 records.\<close>

theorem ll_seek_offset_law_witness:
  "(0::int) \<le> 600 \<and> (600::int) < 2 ^ 31 \<and> (0::int) < 292 \<and> NRECS * 292 < 2 ^ 31 \<and>
   ll_fd (opened (lastlog_file 1025)) \<noteq> - 1 \<and> 600 \<noteq> cur_rec (opened (lastlog_file 1025)) \<and>
   (600 < buf_start (opened (lastlog_file 1025)) \<or>
    600 > buf_start (opened (lastlog_file 1025)) + num_recs (opened (lastlog_file 1025)) - 1) \<and>
   fd_lookup (fdt (opened (lastlog_file 1025))) (ll_fd (opened (lastlog_file 1025)))
     = Some ((lastlog_file 1025)\<lparr>fpos := 0\<rparr>) \<and>
   seekable ((lastlog_file 1025)\<lparr>fpos := 0\<rparr>) \<and> readable ((lastlog_file 1025)\<lparr>fpos := 0\<rparr>) \<and>
   (0::int) \<le> 7 \<and>
   7 < avail 292 ((lastlog_file 1025)\<lparr>fpos := 0, fpos := 600 div NRECS * NRECS * 292\<rparr>) \<and>
   fst (ll_seek 292 600 (opened (lastlog_file 1025))) = 0 \<and>
   trace (snd (ll_seek 292 600 (opened (lastlog_file 1025)))) =
     [SysOpen ''lastlog'', SysLseek 3 149504, SysRead 3 149504] \<and>
   buf_start (snd (ll_seek 292 600 (opened (lastlog_file 1025)))) = 512 \<and>
   cur_rec (snd (ll_seek 292 600 (opened (lastlog_file 1025)))) = 88 \<and>
   llbuf (snd (ll_seek 292 600 (opened (lastlog_file 1025)))) 7 = lastlog_data (149504 + 7)"
proof -
  let ?w = "opened (lastlog_file 1025)"
  let ?f = "(lastlog_file 1025)\<lparr>fpos := 0\<rparr>"
  have h: "(0::int) \<le> 600" "(600::int) < 2 ^ 31" "(0::int) < 292" "NRECS * 292 < 2 ^ 31"
    "ll_fd ?w \<noteq> - 1" "600 \<noteq> cur_rec ?w"
    "600 < buf_start ?w \<or> 600 > buf_start ?w + num_recs ?w - 1"
    "fd_lookup (fdt ?w) (ll_fd ?w) = Some ?f" "seekable ?f"
    by (simp_all add: NRECS_def)
  have g: "readable ?f" "(0::int) \<le> 7"
    "7 < avail 292 (?f\<lparr>fpos := 600 div NRECS * NRECS * 292\<rparr>)"
    by (simp_all add: avail_def NRECS_def)
  have p: "(512::int) = 600 div NRECS * NRECS" by (simp add: NRECS_def)
  have k: "149504 = avail 292 (?f\<lparr>fpos := 512 * 292\<rparr>)" by (simp add: avail_def NRECS_def)
  have ok: "fst (ll_seek 292 600 ?w) = 0"
    using ll_seek_reload [of 600 292 ?w ?f 512 149504, OF h g(1) p k] by simp
  from ll_seek_offset_law [OF h]
  obtain r w' where e: "ll_seek 292 600 ?w = (r, w')"
    and t: "trace w' = trace ?w @ [SysLseek (ll_fd ?w) (600 div NRECS * NRECS * 292),
                            SysRead (ll_fd ?w) (NRECS * 292)]"
    and b: "buf_start w' = 600 div NRECS * NRECS"
    and c: "r = 0 \<longrightarrow> cur_rec w' = 600 - buf_start w'"
    and d: "readable ?f \<longrightarrow>
        (\<forall>i. 0 \<le> i \<and> i < avail 292 (?f\<lparr>fpos := 600 div NRECS * NRECS * 292\<rparr>) \<longrightarrow>
             llbuf w' i = fdata ?f (600 div NRECS * NRECS * 292 + i))"
    by blast
  have r0: "r = 0" using ok e by simp
  have d7: "llbuf w' 7 = fdata ?f (600 div NRECS * NRECS * 292 + 7)"
    using d g by blast
  have "fst (ll_seek 292 600 ?w) = 0"
    "trace (snd (ll_seek 292 600 ?w)) = [SysOpen ''lastlog'', SysLseek 3 149504, SysRead 3 149504]"
    "buf_start (snd (ll_seek 292 600 ?w)) = 512"
    "cur_rec (snd (ll_seek 292 600 ?w)) = 88"
    "llbuf (snd (ll_seek 292 600 ?w)) 7 = lastlog_data (149504 + 7)"
    using e t b c r0 d7 by (simp_all add: NRECS_def)
  then show ?thesis using h g by blast
qed


section \<open>The fast path of seek\<close>

lemma after_1023_eq:
  "lookup_uid 292 1023 (opened (lastlog_file 1025)) =
     (Ptr 149212,
      (opened (lastlog_file 1025))
        \<lparr>llbuf := (\<lambda>i. if 0 \<le> i \<and> i < 149504 then lastlog_data (149504 + i) else 0),
         num_recs := 512, cur_rec := 512, buf_start := 512,
         fdt := [Some tty, Some tty, Some tty, Some ((lastlog_file 1025)\<lparr>fpos := 299008\<rparr>)],
         trace := [SysOpen ''lastlog'', SysLseek 3 149504, SysRead 3 149504]\<rparr>)"
proof -
  let ?w = "opened (lastlog_file 1025)"
  let ?f = "(lastlog_file 1025)\<lparr>fpos := 0\<rparr>"
  have p: "(512::int) = 1023 div NRECS * NRECS" by (simp add: NRECS_def)
  have k: "149504 = avail 292 (?f\<lparr>fpos := 512 * 292\<rparr>)" by (simp add: avail_def NRECS_def)
  have sk: "ll_seek 292 1023 ?w =
     (0, ?w\<lparr>llbuf := (\<lambda>i. if 0 \<le> i \<and> i < 149504 then lastlog_data (149504 + i) else 0),
         num_recs := 512, cur_rec := 511, buf_start := 512,
         fdt := [Some tty, Some tty, Some tty, Some ((lastlog_file 1025)\<lparr>fpos := 299008\<rparr>)],
         trace := [SysOpen ''lastlog'', SysLseek 3 149504, SysRead 3 149504]\<rparr>)"
    using ll_seek_reload [of 1023 292 ?w ?f 512 149504, OF _ _ S_glibc _ _ _ _ _ _ p k]
    by (simp add: NRECS_def cong: if_cong)
  show ?thesis
    unfolding lookup_uid_def sk
    by (simp add: ll_read_window [OF _ _ _ _ _ S_glibc] NRECS_def)
qed

lemma after_600_eq:
  "lookup_uid 292 600 (opened (lastlog_file 1025)) =
     (Ptr 25696,
      (opened (lastlog_file 1025))
        \<lparr>llbuf := (\<lambda>i. if 0 \<le> i \<and> i < 149504 then lastlog_data (149504 + i) else 0),
         num_recs := 512, cur_rec := 89, buf_start := 512,
         fdt := [Some tty, Some tty, Some tty, Some ((lastlog_file 1025)\<lparr>fpos := 299008\<rparr>)],
         trace := [SysOpen ''lastlog'', SysLseek 3 149504, SysRead 3 149504]\<rparr>)"
proof -
  let ?w = "opened (lastlog_file 1025)"
  let ?f = "(lastlog_file 1025)\<lparr>fpos := 0\<rparr>"
  have p: "(512::int) = 600 div NRECS * NRECS" by (simp add: NRECS_def)
  have k: "149504 = avail 292 (?f\<lparr>fpos := 512 * 292\<rparr>)" by (simp add: avail_def NRECS_def)
  have sk: "ll_seek 292 600 ?w =
     (0, ?w\<lparr>llbuf := (\<lambda>i. if 0 \<le> i \<and> i < 149504 then lastlog_data (149504 + i) else 0),
         num_recs := 512, cur_rec := 88, buf_start := 512,
         fdt := [Some tty, Some tty, Some tty, Some ((lastlog_file 1025)\<lparr>fpos := 299008\<rparr>)],
         trace := [SysOpen ''lastlog'', SysLseek 3 149504, SysRead 3 149504]\<rparr>)"
    using ll_seek_reload [of 600 292 ?w ?f 512 149504, OF _ _ S_glibc _ _ _ _ _ _ p k]
    by (simp add: NRECS_def cong: if_cong)
  show ?thesis
    unfolding lookup_uid_def sk
    by (simp add: ll_read_window [OF _ _ _ _ _ S_glibc] NRECS_def)
qed

text \<open>
  C1. Claim: \<open>ll_seek\<close> is a no-op without disk access exactly when
  \<open>buf_start + cur_rec\<close> is the requested index, and after a seek to \<open>i\<close> and one read a
  seek to \<open>i + 1\<close> positions nothing. The code compares the requested index with
  \<open>cur_rec\<close> alone, which is an index inside the page. With 1025 records: after the
  account 1023 has been looked up the next record to read is 1024, yet \<open>ll_seek(1024)\<close>
  calls \<open>lseek\<close> and \<open>read\<close>; after the account 600 has been looked up the next record
  to read is 601, yet \<open>ll_seek(89)\<close> succeeds without doing anything and the record then
  read for the account 89 is the record 601.
\<close>

theorem ll_seek_fast_path_ignores_buf_start:
  "buf_start after_1023 + cur_rec after_1023 = 1024 \<and>
   fst (ll_seek LLSIZE_glibc 1024 after_1023) = 0 \<and>
   trace (snd (ll_seek LLSIZE_glibc 1024 after_1023)) =
     trace after_1023 @ [SysLseek 3 299008, SysRead 3 149504] \<and>
   buf_start after_600 + cur_rec after_600 = 601 \<and>
   ll_seek LLSIZE_glibc 89 after_600 = (0, after_600) \<and>
   fst (lookup_uid LLSIZE_glibc 89 after_600) = Ptr (89 * 292) \<and>
   ll_time_at (llbuf (snd (lookup_uid LLSIZE_glibc 89 after_600))) (89 * 292) = 601"
proof -
  let ?A = "(opened (lastlog_file 1025))
        \<lparr>llbuf := (\<lambda>i. if 0 \<le> i \<and> i < 149504 then lastlog_data (149504 + i) else 0),
         num_recs := 512, cur_rec := 512, buf_start := 512,
         fdt := [Some tty, Some tty, Some tty, Some ((lastlog_file 1025)\<lparr>fpos := 299008\<rparr>)],
         trace := [SysOpen ''lastlog'', SysLseek 3 149504, SysRead 3 149504]\<rparr>"
  let ?B = "?A\<lparr>cur_rec := 89\<rparr>"
  let ?f = "(lastlog_file 1025)\<lparr>fpos := 299008\<rparr>"
  have A: "after_1023 = ?A" by (simp add: after_1023_def LLSIZE_glibc_def after_1023_eq)
  have B: "after_600 = ?B" by (simp add: after_600_def LLSIZE_glibc_def after_600_eq)
  have p: "(1024::int) = 1024 div NRECS * NRECS" by (simp add: NRECS_def)
  have k: "292 = avail 292 (?f\<lparr>fpos := 1024 * 292\<rparr>)" by (simp add: avail_def NRECS_def)
  have sk: "fst (ll_seek 292 1024 ?A) = 0"
       "trace (snd (ll_seek 292 1024 ?A)) = trace ?A @ [SysLseek 3 299008, SysRead 3 149504]"
    using ll_seek_reload [of 1024 292 ?A ?f 1024 292, OF _ _ S_glibc _ _ _ _ _ _ p k]
    by (simp_all add: NRECS_def)
  have fast: "ll_seek 292 89 ?B = (0, ?B)"
    by (rule ll_seek_fast) simp_all
  have rd: "ll_read 292 ?B = (Ptr (89 * 292), ?B\<lparr>cur_rec := 90\<rparr>)"
    using ll_read_window [of ?B 292, OF _ _ _ _ _ S_glibc] by (simp add: NRECS_def)
  have lk: "lookup_uid 292 89 ?B = (Ptr (89 * 292), ?B\<lparr>cur_rec := 90\<rparr>)"
    unfolding lookup_uid_def fast using rd by simp
  have tm: "ll_time_at (llbuf (?B\<lparr>cur_rec := 90\<rparr>)) (89 * 292) = 601"
    by (simp add: ll_time_at_def lastlog_data_def)
  show ?thesis
    unfolding A B LLSIZE_glibc_def using sk fast lk tm by simp
qed


section \<open>The window after a sequential reload\<close>

lemma across_pages_eq:
  "across_pages =
      (opened (lastlog_file 1024))
        \<lparr>llbuf := (\<lambda>i. if 0 \<le> i \<and> i < 149504 then lastlog_data (149504 + i)
                       else if 0 \<le> i \<and> i < 149504 then lastlog_data i else 0),
         num_recs := 512, cur_rec := 1, buf_start := 0,
         fdt := [Some tty, Some tty, Some tty, Some ((lastlog_file 1024)\<lparr>fpos := 299008\<rparr>)],
         trace := [SysOpen ''lastlog'', SysLseek 3 0, SysRead 3 149504, SysRead 3 149504]\<rparr>"
proof -
  let ?w = "opened (lastlog_file 1024)"
  let ?f = "(lastlog_file 1024)\<lparr>fpos := 0\<rparr>"
  let ?g = "(lastlog_file 1024)\<lparr>fpos := 149504\<rparr>"
  let ?w1 = "?w\<lparr>llbuf := (\<lambda>i. if 0 \<le> i \<and> i < 149504 then lastlog_data i else 0),
         num_recs := 512, cur_rec := 511, buf_start := 0,
         fdt := [Some tty, Some tty, Some tty, Some ?g],
         trace := [SysOpen ''lastlog'', SysLseek 3 0, SysRead 3 149504]\<rparr>"
  have p: "(0::int) = 511 div NRECS * NRECS" by (simp add: NRECS_def)
  have k: "149504 = avail 292 (?f\<lparr>fpos := 0 * 292\<rparr>)" by (simp add: avail_def NRECS_def)
  have sk: "ll_seek 292 511 ?w = (0, ?w1)"
    using ll_seek_reload [of 511 292 ?w ?f 0 149504, OF _ _ S_glibc _ _ _ _ _ _ p k]
    by (simp add: NRECS_def cong: if_cong)
  have lk: "lookup_uid 292 511 ?w = (Ptr 149212, ?w1\<lparr>cur_rec := 512\<rparr>)"
    unfolding lookup_uid_def sk
    by (simp add: ll_read_window [OF _ _ _ _ _ S_glibc] NRECS_def)
  have k2: "149504 = avail 292 ?g" by (simp add: avail_def NRECS_def)
  have rd: "ll_read 292 (?w1\<lparr>cur_rec := 512\<rparr>) =
      (Ptr 0, ?w\<lparr>llbuf := (\<lambda>i. if 0 \<le> i \<and> i < 149504 then lastlog_data (149504 + i)
                       else if 0 \<le> i \<and> i < 149504 then lastlog_data i else 0),
         num_recs := 512, cur_rec := 1, buf_start := 0,
         fdt := [Some tty, Some tty, Some tty, Some ((lastlog_file 1024)\<lparr>fpos := 299008\<rparr>)],
         trace := [SysOpen ''lastlog'', SysLseek 3 0, SysRead 3 149504, SysRead 3 149504]\<rparr>)"
    using ll_read_reload [of "?w1\<lparr>cur_rec := 512\<rparr>" ?g 292 149504, OF _ _ _ _ _ S_glibc k2]
    by (simp add: NRECS_def cong: if_cong)
  show ?thesis
    unfolding across_pages_def LLSIZE_glibc_def lk using rd by simp
qed

text \<open>
  C2. Claim: in every reachable state slot \<open>j\<close> of the window holds the record
  \<open>buf_start + j\<close> of the file, and a read yields the record \<open>buf_start + cur_rec\<close>. The
  reload that \<open>ll_read\<close> makes at the end of a page reads on in the file and leaves
  \<open>buf_start\<close> as it was. With 1024 records, after the account 511 was looked up and one
  more record read: \<open>buf_start\<close> is 0 and slot 0 holds the record 512; a lookup of the
  account 5 is served from the window and yields the record 517.
\<close>

theorem ll_read_reload_keeps_buf_start:
  "buf_start across_pages = 0 \<and> num_recs across_pages = 512 \<and>
   ll_time_at (llbuf across_pages) (0 * 292) = 512 \<and>
   fst (lookup_uid LLSIZE_glibc 5 across_pages) = Ptr (5 * 292) \<and>
   ll_time_at (llbuf (snd (lookup_uid LLSIZE_glibc 5 across_pages))) (5 * 292) = 517 \<and>
   ll_time_at lastlog_data (5 * 292) = 5"
proof -
  let ?U = "(opened (lastlog_file 1024))
        \<lparr>llbuf := (\<lambda>i. if 0 \<le> i \<and> i < 149504 then lastlog_data (149504 + i)
                       else if 0 \<le> i \<and> i < 149504 then lastlog_data i else 0),
         num_recs := 512, cur_rec := 1, buf_start := 0,
         fdt := [Some tty, Some tty, Some tty, Some ((lastlog_file 1024)\<lparr>fpos := 299008\<rparr>)],
         trace := [SysOpen ''lastlog'', SysLseek 3 0, SysRead 3 149504, SysRead 3 149504]\<rparr>"
  have t0: "ll_time_at (llbuf ?U) (0 * 292) = 512"
    by (simp add: ll_time_at_def lastlog_data_def)
  have sk: "ll_seek 292 5 ?U = (0, ?U\<lparr>cur_rec := 5\<rparr>)"
    using ll_seek_window [of ?U 5 292] by simp
  have rd: "ll_read 292 (?U\<lparr>cur_rec := 5\<rparr>) = (Ptr (5 * 292), ?U\<lparr>cur_rec := 6\<rparr>)"
    using ll_read_window [of "?U\<lparr>cur_rec := 5\<rparr>" 292, OF _ _ _ _ _ S_glibc]
    by (simp add: NRECS_def)
  have lk: "lookup_uid 292 5 ?U = (Ptr (5 * 292), ?U\<lparr>cur_rec := 6\<rparr>)"
    unfolding lookup_uid_def sk using rd by simp
  have t5: "ll_time_at (llbuf (?U\<lparr>cur_rec := 6\<rparr>)) (5 * 292) = 517"
    by (simp add: ll_time_at_def lastlog_data_def)
  have f5: "ll_time_at lastlog_data (5 * 292) = 5"
    by (simp add: ll_time_at_def lastlog_data_def)
  show ?thesis
    unfolding across_pages_eq LLSIZE_glibc_def using t0 lk t5 f5 by simp
qed

section \<open>The cursor and the valid part of the window\<close>

lemma stale_page_eq:
  "stale_page =
      (opened (lastlog_file 600))
        \<lparr>llbuf := (\<lambda>i. if 0 \<le> i \<and> i < 149504 then lastlog_data i else 0),
         num_recs := 512, cur_rec := 6, buf_start := 0,
         fdt := [Some tty, Some tty, Some tty, Some ((lastlog_file 600)\<lparr>fpos := 149504\<rparr>)],
         trace := [SysOpen ''lastlog'', SysLseek 3 0, SysRead 3 149504]\<rparr>"
proof -
  let ?w = "opened (lastlog_file 600)"
  let ?f = "(lastlog_file 600)\<lparr>fpos := 0\<rparr>"
  have p: "(0::int) = 5 div NRECS * NRECS" by (simp add: NRECS_def)
  have k: "149504 = avail 292 (?f\<lparr>fpos := 0 * 292\<rparr>)" by (simp add: avail_def NRECS_def)
  have sk: "ll_seek 292 5 ?w =
     (0, ?w\<lparr>llbuf := (\<lambda>i. if 0 \<le> i \<and> i < 149504 then lastlog_data i else 0),
         num_recs := 512, cur_rec := 5, buf_start := 0,
         fdt := [Some tty, Some tty, Some tty, Some ((lastlog_file 600)\<lparr>fpos := 149504\<rparr>)],
         trace := [SysOpen ''lastlog'', SysLseek 3 0, SysRead 3 149504]\<rparr>)"
    using ll_seek_reload [of 5 292 ?w ?f 0 149504, OF _ _ S_glibc _ _ _ _ _ _ p k]
    by (simp add: NRECS_def cong: if_cong)
  show ?thesis
    unfolding stale_page_def LLSIZE_glibc_def lookup_uid_def sk
    by (simp add: ll_read_window [OF _ _ _ _ _ S_glibc] NRECS_def)
qed

text \<open>
  C3. Claim: \<open>0 \<le> cur_rec \<le> num_recs \<le> NRECS\<close> always holds, and a successful seek sets
  the cursor at most to \<open>num_recs\<close>. \<open>ll_seek\<close> tests only that the reload gave a record,
  not that the requested one is among them. With 600 records, after the account 5 was
  looked up: \<open>ll_seek(1000)\<close> loads the 88 records of the last page, returns 0 and sets
  the cursor to 488; the read that follows returns slot 488, which still holds the record
  488 of the page loaded before.
\<close>

theorem ll_seek_cursor_beyond_valid:
  "fst (ll_seek LLSIZE_glibc 1000 stale_page) = 0 \<and>
   num_recs (snd (ll_seek LLSIZE_glibc 1000 stale_page)) = 88 \<and>
   cur_rec (snd (ll_seek LLSIZE_glibc 1000 stale_page)) = 488 \<and>
   fst (lookup_uid LLSIZE_glibc 1000 stale_page) = Ptr (488 * 292) \<and>
   ll_time_at (llbuf (snd (lookup_uid LLSIZE_glibc 1000 stale_page))) (488 * 292) = 488"
proof -
  let ?w = "(opened (lastlog_file 600))
        \<lparr>llbuf := (\<lambda>i. if 0 \<le> i \<and> i < 149504 then lastlog_data i else 0),
         num_recs := 512, cur_rec := 6, buf_start := 0,
         fdt := [Some tty, Some tty, Some tty, Some ((lastlog_file 600)\<lparr>fpos := 149504\<rparr>)],
         trace := [SysOpen ''lastlog'', SysLseek 3 0, SysRead 3 149504]\<rparr>"
  let ?f = "(lastlog_file 600)\<lparr>fpos := 149504\<rparr>"
  let ?w1 = "(opened (lastlog_file 600))
        \<lparr>llbuf := (\<lambda>i. if 0 \<le> i \<and> i < 25696 then lastlog_data (149504 + i)
                       else if 0 \<le> i \<and> i < 149504 then lastlog_data i else 0),
         num_recs := 88, cur_rec := 488, buf_start := 512,
         fdt := [Some tty, Some tty, Some tty, Some ((lastlog_file 600)\<lparr>fpos := 175200\<rparr>)],
         trace := [SysOpen ''lastlog'', SysLseek 3 0, SysRead 3 149504,
                   SysLseek 3 149504, SysRead 3 149504]\<rparr>"
  have p: "(512::int) = 1000 div NRECS * NRECS" by (simp add: NRECS_def)
  have k: "25696 = avail 292 (?f\<lparr>fpos := 512 * 292\<rparr>)" by (simp add: avail_def NRECS_def)
  have sk: "ll_seek 292 1000 ?w = (0, ?w1)"
    using ll_seek_reload [of 1000 292 ?w ?f 512 25696, OF _ _ S_glibc _ _ _ _ _ _ p k]
    by (simp add: NRECS_def cong: if_cong)
  have rd: "ll_read 292 ?w1 = (Ptr (488 * 292), ?w1\<lparr>cur_rec := 489\<rparr>)"
    using ll_read_window [of ?w1 292, OF _ _ _ _ _ S_glibc] by (simp add: NRECS_def)
  have lk: "lookup_uid 292 1000 ?w = (Ptr (488 * 292), ?w1\<lparr>cur_rec := 489\<rparr>)"
    unfolding lookup_uid_def sk using rd by simp
  have tm: "ll_time_at (llbuf (?w1\<lparr>cur_rec := 489\<rparr>)) (488 * 292) = 488"
    by (simp add: ll_time_at_def lastlog_data_def)
  show ?thesis
    unfolding stale_page_eq LLSIZE_glibc_def using sk lk tm by simp
qed


section \<open>Reading again at the end of the file\<close>

lemma at_eof_eq:
  "ll_read 292 (opened (lastlog_file 1)) =
     (Ptr 0, (opened (lastlog_file 1))
        \<lparr>llbuf := (\<lambda>i. if 0 \<le> i \<and> i < 292 then lastlog_data i else 0),
         num_recs := 1, cur_rec := 1,
         fdt := [Some tty, Some tty, Some tty, Some ((lastlog_file 1)\<lparr>fpos := 292\<rparr>)],
         trace := [SysOpen ''lastlog'', SysRead 3 149504]\<rparr>)"
  "at_eof = (opened (lastlog_file 1))
        \<lparr>llbuf := (\<lambda>i. if 0 \<le> i \<and> i < 292 then lastlog_data i else 0),
         num_recs := 0, cur_rec := 0,
         fdt := [Some tty, Some tty, Some tty, Some ((lastlog_file 1)\<lparr>fpos := 292\<rparr>)],
         trace := [SysOpen ''lastlog'', SysRead 3 149504, SysRead 3 149504]\<rparr>"
  "ll_read 292 (snd (ll_read 292 (opened (lastlog_file 1)))) = (LL_NULL, at_eof)"
proof -
  let ?w = "opened (lastlog_file 1)"
  let ?f = "(lastlog_file 1)\<lparr>fpos := 0\<rparr>"
  let ?g = "(lastlog_file 1)\<lparr>fpos := 292\<rparr>"
  let ?w1 = "?w\<lparr>llbuf := (\<lambda>i. if 0 \<le> i \<and> i < 292 then lastlog_data i else 0),
         num_recs := 1, cur_rec := 1,
         fdt := [Some tty, Some tty, Some tty, Some ?g],
         trace := [SysOpen ''lastlog'', SysRead 3 149504]\<rparr>"
  let ?w2 = "?w\<lparr>llbuf := (\<lambda>i. if 0 \<le> i \<and> i < 292 then lastlog_data i else 0),
         num_recs := 0, cur_rec := 0,
         fdt := [Some tty, Some tty, Some tty, Some ?g],
         trace := [SysOpen ''lastlog'', SysRead 3 149504, SysRead 3 149504]\<rparr>"
  have k: "292 = avail 292 ?f" "(0::int) < 292 div 292" by (simp_all add: avail_def NRECS_def)
  show r1: "ll_read 292 ?w = (Ptr 0, ?w1)"
    using ll_read_first [of ?w ?f 292 292, OF _ _ _ _ _ S_glibc k]
    by (simp add: NRECS_def cong: if_cong)
  have k2: "0 = avail 292 ?g" by (simp add: avail_def NRECS_def)
  have lb: "(\<lambda>i. if 0 \<le> i \<and> i < (0::int) then lastlog_data (292 + i)
                 else if 0 \<le> i \<and> i < 292 then lastlog_data i else 0) =
            (\<lambda>i. if 0 \<le> i \<and> i < 292 then lastlog_data i else 0)"
    by (rule ext) simp
  have r2: "ll_read 292 ?w1 = (LL_NULL, ?w2)"
    using ll_read_reload [of ?w1 ?g 292 0, OF _ _ _ _ _ S_glibc k2]
    by (simp add: NRECS_def lb cong: if_cong)
  show e: "at_eof = ?w2"
    unfolding at_eof_def LLSIZE_glibc_def r1 using r2 by simp
  show "ll_read 292 (snd (ll_read 292 ?w)) = (LL_NULL, at_eof)"
    unfolding e r1 using r2 by simp
qed

text \<open>
  C7 as stated fails: further reads at the end of the file do issue \<open>read\<close> calls. With
  one record, after the read that returned null, the next \<open>ll_read\<close> returns null again
  and has called \<open>read\<close> twice.
\<close>

theorem ll_read_after_end_of_file_reads_again:
  "fst (ll_read LLSIZE_glibc (snd (ll_read LLSIZE_glibc (opened (lastlog_file 1))))) = LL_NULL \<and>
   at_eof = snd (ll_read LLSIZE_glibc (snd (ll_read LLSIZE_glibc (opened (lastlog_file 1))))) \<and>
   fst (ll_read LLSIZE_glibc at_eof) = LL_NULL \<and>
   trace (snd (ll_read LLSIZE_glibc at_eof)) =
     trace at_eof @ [SysRead 3 149504, SysRead 3 149504]"
proof -
  have d: "drained 292 at_eof" by (simp add: at_eof_eq(2) drained_def)
  have fd: "ll_fd at_eof \<noteq> - 1" "buf_start at_eof = 0" "ll_fd at_eof = 3"
    by (simp_all add: at_eof_eq(2))
  have "ll_read 292 at_eof =
     (LL_NULL, at_eof\<lparr>trace := trace at_eof @ [SysRead 3 149504, SysRead 3 149504]\<rparr>)"
    using ll_read_drained [OF S_glibc d fd(1)] fd(2,3)
    by (simp add: NRECS_def numeral_2_eq_2)
  then show ?thesis
    unfolding LLSIZE_glibc_def by (simp add: at_eof_eq(3))
qed

theorem ll_read_after_end_of_file_witness:
  "(0::int) < 292 \<and> NRECS * 292 < 2 ^ 31 \<and>
   ll_read 292 (snd (ll_read 292 (opened (lastlog_file 1)))) = (LL_NULL, at_eof) \<and>
   fst (ll_read_times 3 292 at_eof) = [LL_NULL, LL_NULL, LL_NULL] \<and>
   (snd (ll_read_times 3 292 at_eof))\<lparr>trace := trace at_eof\<rparr> = at_eof"
proof -
  have fd: "ll_fd at_eof = 3" "buf_start at_eof = 0" by (simp_all add: at_eof_eq(2))
  have "ll_read_times 3 292 at_eof =
    (replicate 3 LL_NULL,
     at_eof\<lparr>trace := trace at_eof @
        replicate (if ll_fd at_eof = - 1 then 0 else 3 * (if buf_start at_eof = 0 then 2 else 1))
          (SysRead (ll_fd at_eof) (NRECS * 292))\<rparr>)"
    by (rule ll_read_after_end_of_file [OF S_glibc at_eof_eq(3)])
  then have "fst (ll_read_times 3 292 at_eof) = [LL_NULL, LL_NULL, LL_NULL]"
    "(snd (ll_read_times 3 292 at_eof))\<lparr>trace := trace at_eof\<rparr> = at_eof"
    by (simp_all add: numeral_3_eq_3)
  then show ?thesis using S_glibc at_eof_eq(3) by simp
qed


section \<open>Seek past the end of the file\<close>

text \<open>
  C8, as amended. For a non-negative index that is neither the cursor nor inside the
  window: when the positioning fails, \<open>ll_seek\<close> returns -1 and leaves the store as it
  was (the \<open>lseek\<close> call apart); when the page-aligned offset is at or past the end of a
  file that can be positioned and read, \<open>ll_seek\<close> returns -1 and leaves the window
  empty, at the page of the index.
\<close>

theorem ll_seek_past_end_of_file:
  assumes rec: "0 \<le> rec" "rec < 2 ^ 31" and S: "0 < S" "NRECS * S < 2 ^ 31"
    and path: "ll_fd w \<noteq> - 1" "rec \<noteq> cur_rec w"
      "rec < buf_start w \<or> rec > buf_start w + num_recs w - 1"
  shows "(fst (sys_lseek (ll_fd w) (rec div NRECS * NRECS * S) w) = - 1 \<longrightarrow>
            ll_seek S rec w =
              (- 1, w\<lparr>trace := trace w @ [SysLseek (ll_fd w) (rec div NRECS * NRECS * S)]\<rparr>)) \<and>
         (fd_lookup (fdt w) (ll_fd w) = Some f \<and> seekable f \<and> readable f \<and>
          fsize f \<le> rec div NRECS * NRECS * S \<longrightarrow>
            fst (ll_seek S rec w) = - 1 \<and>
            num_recs (snd (ll_seek S rec w)) = 0 \<and> cur_rec (snd (ll_seek S rec w)) = 0 \<and>
            buf_start (snd (ll_seek S rec w)) = rec div NRECS * NRECS)"
proof (intro conjI impI)
  assume "fst (sys_lseek (ll_fd w) (rec div NRECS * NRECS * S) w) = - 1"
  then show "ll_seek S rec w =
      (- 1, w\<lparr>trace := trace w @ [SysLseek (ll_fd w) (rec div NRECS * NRECS * S)]\<rparr>)"
    by (rule ll_seek_lseek_fails [OF rec S path])
next
  assume a: "fd_lookup (fdt w) (ll_fd w) = Some f \<and> seekable f \<and> readable f \<and>
          fsize f \<le> rec div NRECS * NRECS * S"
  then have f: "fd_lookup (fdt w) (ll_fd w) = Some f" "seekable f" "readable f"
    and e: "fsize f \<le> rec div NRECS * NRECS * S" by simp_all
  have k: "0 = avail S (f\<lparr>fpos := rec div NRECS * NRECS * S\<rparr>)"
    using e by (simp add: avail_def)
  have sk: "ll_seek S rec w =
    (if 0 div S \<le> 0 then - 1 else 0,
     w\<lparr>llbuf := (\<lambda>i. if 0 \<le> i \<and> i < 0 then fdata f (rec div NRECS * NRECS * S + i) else llbuf w i),
       num_recs := 0 div S, cur_rec := (if 0 div S \<le> 0 then 0 else rec - rec div NRECS * NRECS),
       buf_start := rec div NRECS * NRECS,
       fdt := (fdt w)[nat (ll_fd w) := Some (f\<lparr>fpos := rec div NRECS * NRECS * S + 0\<rparr>)],
       trace := trace w @ [SysLseek (ll_fd w) (rec div NRECS * NRECS * S),
                           SysRead (ll_fd w) (NRECS * S)]\<rparr>)"
    by (rule ll_seek_reload [OF rec S path f refl k])
  show "fst (ll_seek S rec w) = - 1" "num_recs (snd (ll_seek S rec w)) = 0"
    "cur_rec (snd (ll_seek S rec w)) = 0"
    "buf_start (snd (ll_seek S rec w)) = rec div NRECS * NRECS"
    unfolding sk by simp_all
qed

lemma fifo_loaded_eq:
  "fifo_loaded = (opened (lastlog_fifo 3))
        \<lparr>llbuf := (\<lambda>i. if 0 \<le> i \<and> i < 876 then lastlog_data i else 0),
         num_recs := 3, cur_rec := 1,
         fdt := [Some tty, Some tty, Some tty, Some ((lastlog_fifo 3)\<lparr>fpos := 876\<rparr>)],
         trace := [SysOpen ''lastlog'', SysRead 3 149504]\<rparr>"
proof -
  let ?w = "opened (lastlog_fifo 3)"
  let ?f = "(lastlog_fifo 3)\<lparr>fpos := 0\<rparr>"
  have k: "876 = avail 292 ?f" "(0::int) < 876 div 292" by (simp_all add: avail_def NRECS_def)
  show ?thesis
    unfolding fifo_loaded_def LLSIZE_glibc_def
    using ll_read_first [of ?w ?f 292 876, OF _ _ _ _ _ S_glibc k]
    by (simp add: NRECS_def cong: if_cong)
qed

lemma fifo_lseek_fails: "fst (sys_lseek 3 149504 fifo_loaded) = - 1"
  by (simp add: sys_lseek_def fifo_loaded_eq)

text \<open>
  C8 as stated fails twice. On an empty file \<open>ll_seek(0)\<close> right after the open returns
  0 (the fast path), although offset 0 is the end of the file. On a FIFO with three
  records loaded, \<open>ll_seek(600)\<close> fails to position and returns -1, and the window still
  has its three records.
\<close>

theorem ll_seek_past_end_counterexample:
  "fsize (lastlog_file 0) \<le> 0 div NRECS * NRECS * LLSIZE_glibc \<and>
   fst (ll_seek LLSIZE_glibc 0 (opened (lastlog_file 0))) = 0 \<and>
   fst (sys_lseek (ll_fd fifo_loaded) (600 div NRECS * NRECS * LLSIZE_glibc) fifo_loaded) = - 1 \<and>
   fst (ll_seek LLSIZE_glibc 600 fifo_loaded) = - 1 \<and>
   num_recs (snd (ll_seek LLSIZE_glibc 600 fifo_loaded)) = 3"
proof -
  have a: "ll_seek 292 0 (opened (lastlog_file 0)) = (0, opened (lastlog_file 0))"
    by (rule ll_seek_fast) simp_all
  have fd: "ll_fd fifo_loaded = 3" "cur_rec fifo_loaded = 1" "buf_start fifo_loaded = 0"
    "num_recs fifo_loaded = 3"
    by (simp_all add: fifo_loaded_eq)
  have fl: "fst (sys_lseek (ll_fd fifo_loaded) (600 div NRECS * NRECS * 292) fifo_loaded) = - 1"
    using fifo_lseek_fails by (simp add: fd NRECS_def)
  have b: "ll_seek 292 600 fifo_loaded =
     (- 1, fifo_loaded\<lparr>trace := trace fifo_loaded @
        [SysLseek (ll_fd fifo_loaded) (600 div NRECS * NRECS * 292)]\<rparr>)"
    by (rule ll_seek_lseek_fails [OF _ _ S_glibc _ _ _ fl]) (simp_all add: fd)
  show ?thesis
    unfolding LLSIZE_glibc_def using a fl b by (simp add: fd)
qed

theorem ll_seek_past_end_of_file_witness:
  "(0::int) \<le> 600 \<and> (600::int) < 2 ^ 31 \<and> (0::int) < 292 \<and> NRECS * 292 < 2 ^ 31 \<and>
   ll_fd fifo_loaded \<noteq> - 1 \<and> 600 \<noteq> cur_rec fifo_loaded \<and>
   (600 < buf_start fifo_loaded \<or> 600 > buf_start fifo_loaded + num_recs fifo_loaded - 1) \<and>
   fst (sys_lseek (ll_fd fifo_loaded) (600 div NRECS * NRECS * 292) fifo_loaded) = - 1 \<and>
   fst (ll_seek 292 600 fifo_loaded) = - 1 \<and>
   ll_fd (opened (lastlog_file 10)) \<noteq> - 1 \<and> 600 \<noteq> cur_rec (opened (lastlog_file 10)) \<and>
   (600 < buf_start (opened (lastlog_file 10)) \<or>
    600 > buf_start (opened (lastlog_file 10)) + num_recs (opened (lastlog_file 10)) - 1) \<and>
   fd_lookup (fdt (opened (lastlog_file 10))) (ll_fd (opened (lastlog_file 10))) =
     Some ((lastlog_file 10)\<lparr>fpos := 0\<rparr>) \<and>
   seekable ((lastlog_file 10)\<lparr>fpos := 0\<rparr>) \<and> readable ((lastlog_file 10)\<lparr>fpos := 0\<rparr>) \<and>
   fsize ((lastlog_file 10)\<lparr>fpos := 0\<rparr>) \<le> 600 div NRECS * NRECS * 292 \<and>
   fst (ll_seek 292 600 (opened (lastlog_file 10))) = - 1 \<and>
   num_recs (snd (ll_seek 292 600 (opened (lastlog_file 10)))) = 0"
proof -
  let ?w = "opened (lastlog_file 10)"
  let ?f = "(lastlog_file 10)\<lparr>fpos := 0\<rparr>"
  have r: "(0::int) \<le> 600" "(600::int) < 2 ^ 31" by simp_all
  have h1: "ll_fd fifo_loaded \<noteq> - 1" "600 \<noteq> cur_rec fifo_loaded"
    "600 < buf_start fifo_loaded \<or> 600 > buf_start fifo_loaded + num_recs fifo_loaded - 1"
    by (simp_all add: fifo_loaded_eq)
  have fl: "fst (sys_lseek (ll_fd fifo_loaded) (600 div NRECS * NRECS * 292) fifo_loaded) = - 1"
    using fifo_lseek_fails by (simp add: fifo_loaded_eq NRECS_def)
  have h2: "ll_fd ?w \<noteq> - 1" "600 \<noteq> cur_rec ?w"
    "600 < buf_start ?w \<or> 600 > buf_start ?w + num_recs ?w - 1"
    by simp_all
  have f: "fd_lookup (fdt ?w) (ll_fd ?w) = Some ?f \<and> seekable ?f \<and> readable ?f \<and>
     fsize ?f \<le> 600 div NRECS * NRECS * 292"
    by (simp add: NRECS_def)
  have c1: "fst (ll_seek 292 600 fifo_loaded) = - 1"
    using ll_seek_past_end_of_file [OF r S_glibc h1] fl by simp
  have c2: "fst (ll_seek 292 600 ?w) = - 1 \<and> num_recs (snd (ll_seek 292 600 ?w)) = 0"
    using ll_seek_past_end_of_file [OF r S_glibc h2, of ?f] f by blast
  show ?thesis using r S_glibc h1 fl c1 h2 f c2 by blast
qed

section \<open>A successful seek without a record\<close>

text \<open>
  C10. On an open store \<open>ll_seek\<close> of the index equal to \<open>cur_rec\<close> returns 0 and changes
  nothing, so no system call is made. In particular, right after the open of an empty
  file \<open>ll_seek(0)\<close> succeeds, and only the \<open>ll_read\<close> that follows reports the missing
  record by returning null.
\<close>

theorem ll_seek_fast_path_without_record:
  "(ll_fd v \<noteq> - 1 \<longrightarrow> ll_seek S (cur_rec v) v = (0, v)) \<and>
   (0 < S \<and> NRECS * S < 2 ^ 31 \<and> fs w fname = Some f \<and> readable f \<and> fsize f = 0 \<longrightarrow>
     (\<exists>fd w0. ll_open fname w = (fd, w0) \<and> fd \<noteq> - 1 \<and> trace w0 = trace w @ [SysOpen fname] \<and>
        ll_seek S 0 w0 = (0, w0) \<and> fst (ll_read S w0) = LL_NULL))"
proof (intro conjI impI)
  assume "ll_fd v \<noteq> - 1"
  then show "ll_seek S (cur_rec v) v = (0, v)" by (simp add: ll_seek_def)
next
  assume a: "0 < S \<and> NRECS * S < 2 ^ 31 \<and> fs w fname = Some f \<and> readable f \<and> fsize f = 0"
  then have S: "0 < S" "NRECS * S < 2 ^ 31" and f: "fs w fname = Some f" "readable f" "fsize f = 0"
    by simp_all
  let ?n = "first_free (fdt w)"
  let ?w0 = "w\<lparr>trace := trace w @ [SysOpen fname],
              fdt := fd_install (fdt w) ?n (f\<lparr>fpos := 0\<rparr>),
              ll_fd := int ?n, num_recs := 0, cur_rec := 0, buf_start := 0\<rparr>"
  have op: "ll_open fname w = (int ?n, ?w0)"
    using f(1) by (simp add: ll_open_def sys_open_def Let_def)
  have fd: "ll_fd ?w0 \<noteq> - 1" by simp
  have sk: "ll_seek S 0 ?w0 = (0, ?w0)" by (simp add: ll_seek_def)
  have d: "drained S ?w0"
    using f by (simp add: drained_def fd_lookup_install)
  have rd: "fst (ll_read S ?w0) = LL_NULL"
    using ll_read_drained [OF S d fd] by simp
  show "\<exists>fd w0. ll_open fname w = (fd, w0) \<and> fd \<noteq> - 1 \<and> trace w0 = trace w @ [SysOpen fname] \<and>
        ll_seek S 0 w0 = (0, w0) \<and> fst (ll_read S w0) = LL_NULL"
    using op sk rd by (intro exI [of _ "int ?n"] exI [of _ ?w0]) simp
qed

theorem ll_seek_fast_path_without_record_witness:
  "ll_fd (opened (lastlog_file 0)) \<noteq> - 1 \<and> (0::int) < 292 \<and> NRECS * 292 < 2 ^ 31 \<and>
   fs (boot (lastlog_file 0)) ''lastlog'' = Some (lastlog_file 0) \<and>
   readable (lastlog_file 0) \<and> fsize (lastlog_file 0) = 0 \<and>
   ll_seek 292 (cur_rec (opened (lastlog_file 0))) (opened (lastlog_file 0))
     = (0, opened (lastlog_file 0)) \<and>
   ll_seek 292 0 (opened (lastlog_file 0)) = (0, opened (lastlog_file 0)) \<and>
   fst (ll_read 292 (opened (lastlog_file 0))) = LL_NULL"
proof -
  let ?o = "opened (lastlog_file 0)"
  have h: "ll_fd ?o \<noteq> - 1" by simp
  have g: "(0::int) < 292 \<and> NRECS * 292 < 2 ^ 31 \<and>
     fs (boot (lastlog_file 0)) ''lastlog'' = Some (lastlog_file 0) \<and>
     readable (lastlog_file 0) \<and> fsize (lastlog_file 0) = 0"
    by (simp add: boot_def NRECS_def)
  note t = ll_seek_fast_path_without_record
    [of ?o 292 "boot (lastlog_file 0)" "''lastlog''" "lastlog_file 0"]
  have a: "ll_seek 292 (cur_rec ?o) ?o = (0, ?o)" using t h by blast
  from t g obtain fd w0 where
    o: "ll_open ''lastlog'' (boot (lastlog_file 0)) = (fd, w0)"
    and r: "ll_seek 292 0 w0 = (0, w0)" "fst (ll_read 292 w0) = LL_NULL"
    by blast
  have "w0 = ?o" using o by (simp add: opened_def)
  then show ?thesis using h g a r by simp
qed

end
